theory Spec2Isabelle
  imports Complex_Main "HOL-Library.AList" "HOL-Library.Word"
begin

section \<open>Python strings\<close>

text \<open>
  A Python \<open>str\<close> is a sequence of Unicode code points; it is modelled as a list of
  natural numbers. ASCII literals of the source are written \<open>lit ''...''\<close>.
\<close>

type_synonym pystr = "nat list"

definition lit :: "string \<Rightarrow> pystr" where
  "lit s = map of_char s"

text \<open>The characters \<open>str.strip()\<close> removes: those for which \<open>str.isspace()\<close> holds.\<close>

definition is_space :: "nat \<Rightarrow> bool" where
  "is_space c = ((9 \<le> c \<and> c \<le> 13) \<or> (28 \<le> c \<and> c \<le> 32) \<or> c = 133 \<or> c = 160
     \<or> c = 5760 \<or> (8192 \<le> c \<and> c \<le> 8202) \<or> c = 8232 \<or> c = 8233 \<or> c = 8239
     \<or> c = 8287 \<or> c = 12288)"

definition strip :: "pystr \<Rightarrow> pystr" where
  "strip s = rev (dropWhile is_space (rev (dropWhile is_space s)))"

text \<open>\<open>sep.join(parts)\<close> with the separator \<open>"\n"\<close> (code point 10).\<close>

fun join_nl :: "pystr list \<Rightarrow> pystr" where
  "join_nl [] = []"
| "join_nl [l] = l"
| "join_nl (l # m # ls) = l @ [10] @ join_nl (m # ls)"

text \<open>\<open>s.startswith(p)\<close>.\<close>

definition startswith :: "pystr \<Rightarrow> pystr \<Rightarrow> bool" where
  "startswith s p = (take (length p) s = p)"

section \<open>Exceptions\<close>

text \<open>
  Every raise of the source is a value: \<open>Inl e\<close> in a result of type \<open>exn + 'a\<close>.
  \<open>External m\<close> is an exception raised by a library or a service outside the repository
  whose \<open>str(e)\<close> is \<open>m\<close>.
\<close>

datatype exn =
    AttributeError | IndexError | KeyError | TypeError | ValueError | OSError
  | External pystr

definition bindE :: "exn + 'a \<Rightarrow> ('a \<Rightarrow> exn + 'b) \<Rightarrow> exn + 'b" where
  "bindE m f = (case m of Inl e \<Rightarrow> Inl e | Inr x \<Rightarrow> f x)"

fun foldE :: "('s \<Rightarrow> 'a \<Rightarrow> exn + 's) \<Rightarrow> 'a list \<Rightarrow> 's \<Rightarrow> exn + 's" where
  "foldE f [] s = Inr s"
| "foldE f (x # xs) s = bindE (f s x) (foldE f xs)"

section \<open>Values returned by the recognizer\<close>

text \<open>
  The values \<open>_extract_text\<close> inspects. Strings, lists, tuples and dicts are those of
  the built-in types, whose methods do what the language defines. A dict is the list of
  its entries with string keys (only string keys are looked up). \<open>POther s t\<close> is any
  other object (a number, a score, an array of box coordinates), given by what the
  function can observe of it: the outcome of \<open>str()\<close> and the outcome of its truth
  test. Either may raise: the truth test of a numpy array of more than one element
  raises \<open>ValueError\<close>.
\<close>

datatype pyval =
    PNone
  | PStr pystr
  | PList "pyval list"
  | PTuple "pyval list"
  | PDict "(pystr \<times> pyval) list"
  | POther "exn + pystr" "exn + bool"

fun is_str :: "pyval \<Rightarrow> bool" where
  "is_str (PStr s) = True"
| "is_str v = False"

fun is_list :: "pyval \<Rightarrow> bool" where
  "is_list (PList xs) = True"
| "is_list v = False"

fun is_dict :: "pyval \<Rightarrow> bool" where
  "is_dict (PDict d) = True"
| "is_dict v = False"

fun is_list_or_tuple :: "pyval \<Rightarrow> bool" where
  "is_list_or_tuple (PList xs) = True"
| "is_list_or_tuple (PTuple xs) = True"
| "is_list_or_tuple v = False"

text \<open>
  Truth test of an object, as \<open>if x:\<close>, \<open>not x\<close> and \<open>x or y\<close> make it. It returns for
  the built-in types and does what the object's own test does otherwise.
\<close>

fun truthy :: "pyval \<Rightarrow> exn + bool" where
  "truthy PNone = Inr False"
| "truthy (PStr s) = Inr (s \<noteq> [])"
| "truthy (PList xs) = Inr (xs \<noteq> [])"
| "truthy (PTuple xs) = Inr (xs \<noteq> [])"
| "truthy (PDict d) = Inr (d \<noteq> [])"
| "truthy (POther s t) = t"

text \<open>
  \<open>str(x)\<close>: the string itself, \<open>"None"\<close>, what the object's own \<open>__str__\<close> does; the
  \<open>repr\<close> of a container, which calls the \<open>repr\<close> of its elements and may raise with
  them, is a parameter.
\<close>

fun py_str :: "(pyval \<Rightarrow> exn + pystr) \<Rightarrow> pyval \<Rightarrow> exn + pystr" where
  "py_str repr (PStr s) = Inr s"
| "py_str repr PNone = Inr (lit ''None'')"
| "py_str repr (POther s t) = s"
| "py_str repr v = repr v"

text \<open>
  Method calls and indexing on a dynamically typed value fail when the value has not the
  type the call needs: \<open>x.strip()\<close>, \<open>len(x)\<close>, \<open>x[i]\<close>, \<open>x.get(k)\<close>, \<open>for y in x\<close>.
  \<open>dict_value d k\<close> is what \<open>d.get(k)\<close> gives for a dict: the first entry of that key,
  \<open>None\<close> when there is none.
\<close>

fun py_strip :: "pyval \<Rightarrow> exn + pystr" where
  "py_strip (PStr s) = Inr (strip s)"
| "py_strip v = Inl AttributeError"

fun py_len :: "pyval \<Rightarrow> exn + nat" where
  "py_len (PStr s) = Inr (length s)"
| "py_len (PList xs) = Inr (length xs)"
| "py_len (PTuple xs) = Inr (length xs)"
| "py_len (PDict d) = Inr (length d)"
| "py_len v = Inl TypeError"

definition index_list :: "pyval list \<Rightarrow> nat \<Rightarrow> exn + pyval" where
  "index_list xs i = (if i < length xs then Inr (xs ! i) else Inl IndexError)"

fun py_getitem :: "pyval \<Rightarrow> nat \<Rightarrow> exn + pyval" where
  "py_getitem (PList xs) i = index_list xs i"
| "py_getitem (PTuple xs) i = index_list xs i"
| "py_getitem (PStr s) i = (if i < length s then Inr (PStr [s ! i]) else Inl IndexError)"
| "py_getitem (PDict d) i = Inl KeyError"
| "py_getitem v i = Inl TypeError"

definition dict_value :: "(pystr \<times> pyval) list \<Rightarrow> pystr \<Rightarrow> pyval" where
  "dict_value d k = (case map_of d k of None \<Rightarrow> PNone | Some v \<Rightarrow> v)"

fun py_get :: "pyval \<Rightarrow> pystr \<Rightarrow> exn + pyval" where
  "py_get (PDict d) k = Inr (dict_value d k)"
| "py_get v k = Inl AttributeError"

fun py_iter :: "pyval \<Rightarrow> exn + pyval list" where
  "py_iter (PList xs) = Inr xs"
| "py_iter (PTuple xs) = Inr xs"
| "py_iter (PStr s) = Inr (map (\<lambda>c. PStr [c]) s)"
| "py_iter (PDict d) = Inr (map (\<lambda>kv. PStr (fst kv)) d)"
| "py_iter v = Inl TypeError"

section \<open>\<open>OCREngine._extract_text\<close>\<close>

text \<open>The condition \<open>isinstance(x, str) and x.strip()\<close>.\<close>

definition str_and_nonblank :: "pyval \<Rightarrow> exn + bool" where
  "str_and_nonblank x =
     (if is_str x then bindE (py_strip x) (\<lambda>s. Inr (s \<noteq> [])) else Inr False)"

text \<open>\<open>lines.append(x.strip())\<close>.\<close>

definition append_stripped :: "pystr list \<Rightarrow> pyval \<Rightarrow> exn + pystr list" where
  "append_stripped lines x = bindE (py_strip x) (\<lambda>s. Inr (lines @ [s]))"

text \<open>\<open>if isinstance(x, str) and x.strip(): lines.append(x.strip())\<close>.\<close>

definition add_text :: "pystr list \<Rightarrow> pyval \<Rightarrow> exn + pystr list" where
  "add_text lines x =
     bindE (str_and_nonblank x) (\<lambda>c. if c then append_stripped lines x else Inr lines)"

text \<open>
  One element of the comprehension \<open>[str(x).strip() for x in value if str(x).strip()]\<close>:
  \<open>str(x)\<close> is called for the condition and again for the element.
\<close>

definition str_step :: "(pyval \<Rightarrow> exn + pystr) \<Rightarrow> pystr list \<Rightarrow> pyval \<Rightarrow> exn + pystr list" where
  "str_step repr lines x =
     bindE (py_str repr x) (\<lambda>s.
       if strip s \<noteq> [] then bindE (py_str repr x) (\<lambda>s2. Inr (lines @ [strip s2]))
       else Inr lines)"

text \<open>
  The dict branch of the top level: the first of the keys whose value is a list or a
  string decides.
\<close>

fun dict_text :: "(pyval \<Rightarrow> exn + pystr) \<Rightarrow> pyval \<Rightarrow> pystr list \<Rightarrow> exn + pystr" where
  "dict_text repr result [] = Inr []"
| "dict_text repr result (key # keys) =
     bindE (py_get result key) (\<lambda>value.
       if is_list value then
         bindE (py_iter value) (\<lambda>xs.
         bindE (foldE (str_step repr) xs []) (\<lambda>lines. Inr (join_nl lines)))
       else if is_str value then py_strip value
       else dict_text repr result keys)"

text \<open>
  A dict item of a list: the loop over \<open>"rec_texts"\<close> and \<open>"texts"\<close> (its
  \<open>if lines: continue\<close> ends an iteration that is over anyway), then
  \<open>item.get("rec_text") or item.get("text")\<close>, whose \<open>or\<close> makes the truth test of the
  first value, whatever its type.
\<close>

definition dict_item_key :: "pyval \<Rightarrow> pystr list \<Rightarrow> pystr \<Rightarrow> exn + pystr list" where
  "dict_item_key item lines key =
     bindE (py_get item key) (\<lambda>value.
       if is_list value then bindE (py_iter value) (\<lambda>xs. foldE add_text xs lines)
       else Inr lines)"

definition dict_item :: "pystr list \<Rightarrow> pyval \<Rightarrow> exn + pystr list" where
  "dict_item lines item =
     bindE (foldE (dict_item_key item) [lit ''rec_texts'', lit ''texts''] lines) (\<lambda>lines1.
     bindE (py_get item (lit ''rec_text'')) (\<lambda>a.
     bindE (truthy a) (\<lambda>c.
     bindE (if c then Inr a else py_get item (lit ''text'')) (\<lambda>text.
       add_text lines1 text))))"

text \<open>An old-style item \<open>[box, (text, score)]\<close>.\<close>

definition pair_item :: "pystr list \<Rightarrow> pyval \<Rightarrow> exn + pystr list" where
  "pair_item lines item =
     bindE (if is_list_or_tuple item then bindE (py_len item) (\<lambda>n. Inr (2 \<le> n)) else Inr False)
       (\<lambda>c. if c then
          bindE (py_getitem item 1) (\<lambda>second.
          bindE (if is_list_or_tuple second then bindE (py_len second) (\<lambda>n. Inr (1 \<le> n))
                 else Inr False)
            (\<lambda>c2. if c2 then bindE (py_getitem second 0) (\<lambda>text. add_text lines text)
                   else Inr lines))
        else Inr lines)"

text \<open>One iteration of \<open>for item in result\<close>.\<close>

definition item_step :: "pystr list \<Rightarrow> pyval \<Rightarrow> exn + pystr list" where
  "item_step lines item =
     (if item = PNone then Inr lines
      else if is_str item then
        bindE (py_strip item) (\<lambda>s. if s \<noteq> [] then append_stripped lines item else Inr lines)
      else if is_dict item then dict_item lines item
      else pair_item lines item)"

text \<open>\<open>if len(result) == 1 and isinstance(result[0], list): result = result[0]\<close>.\<close>

definition unwrap_nested :: "pyval \<Rightarrow> exn + pyval" where
  "unwrap_nested result =
     bindE (py_len result) (\<lambda>n.
       if n = 1 then
         bindE (py_getitem result 0) (\<lambda>first.
           if is_list first then Inr first else Inr result)
       else Inr result)"

definition extract_text :: "(pyval \<Rightarrow> exn + pystr) \<Rightarrow> pyval \<Rightarrow> exn + pystr" where
  "extract_text repr result =
     (if result = PNone then Inr []
      else if is_str result then py_strip result
      else if is_dict result then
        dict_text repr result [lit ''rec_texts'', lit ''texts'', lit ''text'', lit ''result'']
      else if is_list result then
        bindE (truthy result) (\<lambda>c.
          if c then
            bindE (unwrap_nested result) (\<lambda>result1.
            bindE (py_iter result1) (\<lambda>items.
            bindE (foldE item_step items []) (\<lambda>lines. Inr (join_nl lines))))
          else Inr [])
      else Inr [])"

text \<open>A line as the normalizer collects it: not empty, and nothing left to strip.\<close>

definition clean_line :: "pystr \<Rightarrow> bool" where
  "clean_line l = (l \<noteq> [] \<and> strip l = l)"

text \<open>The result of a loop over items: no exception, and only clean lines collected.\<close>

definition ok_lines :: "exn + pystr list \<Rightarrow> bool" where
  "ok_lines r = (case r of Inl e \<Rightarrow> False | Inr ls \<Rightarrow> list_all clean_line ls)"

text \<open>
  The calls \<open>_extract_text\<close> makes on a value without a check of its type first, and
  that therefore can raise: the truth test of what a dict item of the list holds under
  \<open>"rec_text"\<close>, and \<open>str()\<close> of the elements of the list that decides for a dict.
  \<open>returns r\<close> says that a call came back. \<open>loop_items\<close> are the items the loop of the
  list branch visits, \<open>deciding_list\<close> the list under the first of the keys that holds a
  list or a string. \<open>plain_result\<close> holds of the inputs on which each of these calls
  returns.
\<close>

definition returns :: "exn + 'a \<Rightarrow> bool" where
  "returns r = (case r of Inl e \<Rightarrow> False | Inr x \<Rightarrow> True)"

fun loop_items :: "pyval list \<Rightarrow> pyval list" where
  "loop_items [PList ys] = ys"
| "loop_items xs = xs"

fun plain_item :: "pyval \<Rightarrow> bool" where
  "plain_item (PDict d) = returns (truthy (dict_value d (lit ''rec_text'')))"
| "plain_item v = True"

fun deciding_list :: "(pystr \<times> pyval) list \<Rightarrow> pystr list \<Rightarrow> pyval list" where
  "deciding_list d [] = []"
| "deciding_list d (key # keys) =
     (case dict_value d key of
        PList xs \<Rightarrow> xs
      | PStr s \<Rightarrow> []
      | _ \<Rightarrow> deciding_list d keys)"

fun plain_result :: "(pyval \<Rightarrow> exn + pystr) \<Rightarrow> pyval \<Rightarrow> bool" where
  "plain_result repr (PList xs) = list_all plain_item (loop_items xs)"
| "plain_result repr (PDict d) =
     list_all (\<lambda>x. returns (py_str repr x))
       (deciding_list d [lit ''rec_texts'', lit ''texts'', lit ''text'', lit ''result''])"
| "plain_result repr v = True"

section \<open>The configuration file (\<open>utils/config.py\<close>)\<close>

text \<open>
  The configuration is JSON: what \<open>json.load\<close> returns and \<open>json.dump\<close> writes. An
  object is the list of its members in insertion order, as a Python dict keeps them.
\<close>

datatype json =
    JNull
  | JBool bool
  | JInt int
  | JFloat rat
  | JStr pystr
  | JArr "json list"
  | JObj "(pystr \<times> json) list"

text \<open>
  What is on disk under \<open>CONFIG_FILE\<close>: no file, a file that cannot be opened for
  reading, a file whose text is not JSON, or a file whose text parses to a value.
\<close>

datatype config_file = Missing | Unreadable | Malformed | Parsed json

text \<open>
  What happens to a write: it succeeds, \<open>open(CONFIG_FILE, 'w')\<close> raises (the file is
  left as it was), or \<open>json.dump\<close> raises after the file was opened and truncated.
\<close>

datatype disk = WriteOk | OpenFails | WriteFails

record config_fs =
  cfile :: config_file
  disk :: disk

definition path_exists_cfg :: "config_fs \<Rightarrow> bool" where
  "path_exists_cfg fs = (cfile fs \<noteq> Missing)"

text \<open>\<open>with open(CONFIG_FILE, 'r', encoding='utf-8') as f: return json.load(f)\<close>.\<close>

definition read_json :: "config_fs \<Rightarrow> exn + json" where
  "read_json fs =
     (case cfile fs of
        Missing \<Rightarrow> Inl OSError
      | Unreadable \<Rightarrow> Inl OSError
      | Malformed \<Rightarrow> Inl ValueError
      | Parsed v \<Rightarrow> Inr v)"

definition load_config :: "config_fs \<Rightarrow> exn + json" where
  "load_config fs =
     (if \<not> path_exists_cfg fs then Inr (JObj [])
      else (case read_json fs of Inl e \<Rightarrow> Inr (JObj []) | Inr v \<Rightarrow> Inr v))"

text \<open>\<open>current_config.update(data)\<close>: only a dict has the method.\<close>

definition dict_update :: "json \<Rightarrow> (pystr \<times> json) list \<Rightarrow> exn + json" where
  "dict_update current data =
     (case current of
        JObj d \<Rightarrow> Inr (JObj (fold (\<lambda>kv. AList.update (fst kv) (snd kv)) data d))
      | _ \<Rightarrow> Inl AttributeError)"

text \<open>\<open>with open(CONFIG_FILE, 'w', encoding='utf-8') as f: json.dump(current_config, f, indent=4)\<close>.\<close>

definition write_json :: "json \<Rightarrow> config_fs \<Rightarrow> (exn + unit) \<times> config_fs" where
  "write_json v fs =
     (case disk fs of
        OpenFails \<Rightarrow> (Inl OSError, fs)
      | WriteFails \<Rightarrow> (Inl OSError, fs\<lparr>cfile := Malformed\<rparr>)
      | WriteOk \<Rightarrow> (Inr (), fs\<lparr>cfile := Parsed v\<rparr>))"

text \<open>
  The body of the \<open>try\<close> of \<open>save_config\<close>, up to its \<open>return True\<close>. The argument
  \<open>data\<close> is a dict of JSON values, given as the list of its entries.
\<close>

definition save_steps :: "(pystr \<times> json) list \<Rightarrow> config_fs \<Rightarrow> (exn + unit) \<times> config_fs" where
  "save_steps data fs =
     (case load_config fs of
        Inl e \<Rightarrow> (Inl e, fs)
      | Inr current \<Rightarrow>
          (case dict_update current data of
             Inl e \<Rightarrow> (Inl e, fs)
           | Inr merged \<Rightarrow> write_json merged fs))"

definition save_config :: "(pystr \<times> json) list \<Rightarrow> config_fs \<Rightarrow> bool \<times> config_fs" where
  "save_config data fs =
     (case save_steps data fs of
        (Inl e, fs1) \<Rightarrow> (False, fs1)
      | (Inr u, fs1) \<Rightarrow> (True, fs1))"

text \<open>The stored configuration as a lookup: the member of the stored object under a key.\<close>

definition stored :: "config_fs \<Rightarrow> pystr \<Rightarrow> json option" where
  "stored fs k = (case load_config fs of Inr (JObj d) \<Rightarrow> map_of d k | _ \<Rightarrow> None)"

section \<open>The history of successful models (\<open>ui/settings.py\<close>)\<close>

text \<open>\<open>config.get(key, default)\<close>.\<close>

definition json_get :: "json \<Rightarrow> pystr \<Rightarrow> json \<Rightarrow> exn + json" where
  "json_get config k dflt =
     (case config of
        JObj d \<Rightarrow> Inr (case map_of d k of None \<Rightarrow> dflt | Some v \<Rightarrow> v)
      | _ \<Rightarrow> Inl AttributeError)"

text \<open>
  The cleaning loop of \<open>_load_successful_models\<close>, on the state \<open>(cleaned, seen)\<close>.
\<close>

fun clean_loop :: "json list \<Rightarrow> pystr list \<times> pystr set \<Rightarrow> pystr list \<times> pystr set" where
  "clean_loop [] st = st"
| "clean_loop (item # items) (cleaned, seen) =
     (case item of
        JStr s \<Rightarrow>
          (if strip s = [] \<or> strip s \<in> seen then clean_loop items (cleaned, seen)
           else clean_loop items (cleaned @ [strip s], insert (strip s) seen))
      | _ \<Rightarrow> clean_loop items (cleaned, seen))"

definition load_successful_models :: "config_fs \<Rightarrow> exn + pystr list" where
  "load_successful_models fs =
     bindE (load_config fs) (\<lambda>config.
     bindE (json_get config (lit ''successful_models'') (JArr [])) (\<lambda>models.
       case models of
         JArr items \<Rightarrow> Inr (fst (clean_loop items ([], {})))
       | _ \<Rightarrow> Inr []))"

text \<open>
  The dialog: the configuration on disk and the model combo box (its items and its
  current text), which exists once \<open>init_ui\<close> has run.
\<close>

record dialog =
  dlg_fs :: config_fs
  model_combo :: "(pystr list \<times> pystr) option"

definition update_combo :: "pystr \<Rightarrow> (pystr list \<times> pystr) option \<Rightarrow> (pystr list \<times> pystr) option" where
  "update_combo model combo =
     (case combo of
        None \<Rightarrow> None
      | Some (items, current) \<Rightarrow>
          Some (if model \<in> set items then items else model # items, model))"

text \<open>
  \<open>_save_successful_model(model)\<close>; the argument is a string or \<open>None\<close>. The result
  of \<open>save_config\<close> is not looked at.
\<close>

definition save_successful_model :: "pystr option \<Rightarrow> dialog \<Rightarrow> exn + dialog" where
  "save_successful_model arg dlg =
     (let model = strip (case arg of None \<Rightarrow> [] | Some m \<Rightarrow> m) in
      if model = [] then Inr dlg
      else
        bindE (load_successful_models (dlg_fs dlg)) (\<lambda>models.
          let models1 = filter (\<lambda>m. m \<noteq> model) models;
              models2 = model # models1;
              models3 = take 30 models2;
              saved = save_config [(lit ''successful_models'', JArr (map JStr models3))] (dlg_fs dlg)
          in Inr (dlg\<lparr>dlg_fs := snd saved, model_combo := update_combo model (model_combo dlg)\<rparr>)))"

text \<open>Whether a configuration value is a dict, the only kind with \<open>get\<close> and \<open>update\<close>.\<close>

fun is_object :: "json \<Rightarrow> bool" where
  "is_object (JObj d) = True"
| "is_object v = False"

text \<open>The stored history, when the stored configuration has one that is a list of strings.\<close>

fun json_strs :: "json list \<Rightarrow> pystr list option" where
  "json_strs [] = Some []"
| "json_strs (JStr s # js) = (case json_strs js of None \<Rightarrow> None | Some ss \<Rightarrow> Some (s # ss))"
| "json_strs (j # js) = None"

definition stored_models :: "config_fs \<Rightarrow> pystr list option" where
  "stored_models fs =
     (case stored fs (lit ''successful_models'') of
        Some (JArr items) \<Rightarrow> json_strs items
      | _ \<Rightarrow> None)"

text \<open>A dialog over a stored history with a duplicate, padding and a non-string entry.\<close>

definition history_example :: dialog where
  "history_example =
     \<lparr>dlg_fs = \<lparr>cfile = Parsed (JObj [(lit ''successful_models'',
          JArr [JStr (lit ''a''), JStr (lit '' b ''), JInt 3, JStr (lit ''a'')])]), disk = WriteOk\<rparr>,
      model_combo = None\<rparr>"

text \<open>A dialog over a stored history of two names, on a disk where the write fails.\<close>

definition failing_disk_example :: dialog where
  "failing_disk_example =
     \<lparr>dlg_fs = \<lparr>cfile = Parsed (JObj [(lit ''successful_models'',
          JArr [JStr (lit ''a''), JStr (lit ''b'')])]), disk = WriteFails\<rparr>,
      model_combo = None\<rparr>"

section \<open>\<open>OCREngine.recognize\<close> (\<open>engine/ocr.py\<close>)\<close>

text \<open>
  \<open>str(e)\<close> of an exception. For the exceptions the model raises itself the name of the
  class stands for the message.
\<close>

fun exn_str :: "exn \<Rightarrow> pystr" where
  "exn_str (External m) = m"
| "exn_str AttributeError = lit ''AttributeError''"
| "exn_str IndexError = lit ''IndexError''"
| "exn_str KeyError = lit ''KeyError''"
| "exn_str TypeError = lit ''TypeError''"
| "exn_str ValueError = lit ''ValueError''"
| "exn_str OSError = lit ''OSError''"

text \<open>
  The engine and everything outside the repository that \<open>recognize\<close> calls:
  \<^item> \<open>initialized\<close>: the flag of the singleton; \<open>can_initialize\<close>: whether importing and
    constructing \<open>PaddleOCR\<close> succeeds;
  \<^item> \<open>has_predict\<close>: \<open>hasattr(self.ocr, "predict")\<close>; \<open>ocr_predict path lenient\<close>:
    \<open>self.ocr.predict(path, **kwargs)\<close> with the standard or the lowered thresholds;
    \<open>ocr_ocr path\<close>: \<open>self.ocr.ocr(path)\<close>; each returns a value or raises;
  \<^item> \<open>path_exists\<close>: \<open>os.path.exists\<close>;
  \<^item> \<open>open_image path\<close>: \<open>Image.open(path)\<close>, \<open>convert("RGB")\<close> and \<open>size\<close> (the import
    of PIL included);
  \<^item> \<open>expand_image path pad\<close>: \<open>ImageOps.expand\<close> with a white border;
  \<^item> \<open>save_scaled path pad scale\<close>: \<open>resize\<close>, \<open>mkstemp\<close>, \<open>close\<close> and \<open>save\<close>; it returns
    the path of the temporary file that holds the padded image at that scale;
  \<^item> \<open>value_repr\<close>: \<open>repr\<close> of a container, for \<open>_extract_text\<close>.
\<close>

record ocr_engine =
  initialized :: bool
  can_initialize :: bool
  has_predict :: bool
  ocr_predict :: "pystr \<Rightarrow> bool \<Rightarrow> exn + pyval"
  ocr_ocr :: "pystr \<Rightarrow> exn + pyval"
  path_exists :: "pystr \<Rightarrow> bool"
  open_image :: "pystr \<Rightarrow> exn + int \<times> int"
  expand_image :: "pystr \<Rightarrow> int \<Rightarrow> exn + unit"
  save_scaled :: "pystr \<Rightarrow> int \<Rightarrow> int \<Rightarrow> exn + pystr"
  value_repr :: "pyval \<Rightarrow> exn + pystr"

definition initialize :: "ocr_engine \<Rightarrow> bool \<times> ocr_engine" where
  "initialize e =
     (if initialized e then (True, e)
      else if can_initialize e then (True, e\<lparr>initialized := True\<rparr>)
      else (False, e))"

text \<open>The nested function \<open>_predict(path, lenient=...)\<close>.\<close>

definition predict :: "ocr_engine \<Rightarrow> pystr \<Rightarrow> bool \<Rightarrow> exn + pyval" where
  "predict e path lenient =
     (if \<not> has_predict e then ocr_ocr e path else ocr_predict e path lenient)"

text \<open>\<open>text = self._extract_text(result)\<close> after a call of the recognizer.\<close>

definition read_text :: "ocr_engine \<Rightarrow> exn + pyval \<Rightarrow> exn + pystr" where
  "read_text e r = bindE r (extract_text (value_repr e))"

text \<open>Strategy 1, with its two branches.\<close>

definition standard_text :: "ocr_engine \<Rightarrow> pystr \<Rightarrow> exn + pystr" where
  "standard_text e path =
     (if has_predict e then read_text e (predict e path False)
      else read_text e (ocr_ocr e path))"

text \<open>
  \<open>pad = max(10, int(min(w, h) * 0.08))\<close>, in integer arithmetic: for the positive sizes
  that reach this line the float product truncates to \<open>min(w, h) * 8 div 100\<close>.
\<close>

definition padding :: "int \<Rightarrow> int \<Rightarrow> int" where
  "padding w h = max 10 (min w h * 8 div 100)"

definition scales_for :: "int \<Rightarrow> int list" where
  "scales_for max_side =
     (if max_side < 700 then [2, 3] else if max_side < 1100 then [2] else [])"

text \<open>
  The loop \<open>for scale in scales\<close>: \<open>Some text\<close> is a \<open>return text\<close>, \<open>None\<close> is the end
  of the loop. The \<open>finally\<close> that removes the temporary file changes no result.
\<close>

fun scale_loop :: "ocr_engine \<Rightarrow> pystr \<Rightarrow> int \<Rightarrow> int list \<Rightarrow> exn + pystr option" where
  "scale_loop e path pad [] = Inr None"
| "scale_loop e path pad (scale # scales) =
     bindE (save_scaled e path pad scale) (\<lambda>tmp_path.
     bindE (if has_predict e then read_text e (predict e tmp_path True)
            else read_text e (ocr_ocr e tmp_path)) (\<lambda>text.
       if strip text \<noteq> [] then Inr (Some text) else scale_loop e path pad scales))"

text \<open>The body of the inner \<open>try\<close> of strategy 3.\<close>

definition enhance :: "ocr_engine \<Rightarrow> pystr \<Rightarrow> exn + pystr option" where
  "enhance e path =
     bindE (open_image e path) (\<lambda>size.
       if fst size \<le> 0 \<or> snd size \<le> 0 then Inr (Some [])
       else
         bindE (expand_image e path (padding (fst size) (snd size))) (\<lambda>u.
           scale_loop e path (padding (fst size) (snd size))
             (scales_for (max (fst size + 2 * padding (fst size) (snd size))
                              (snd size + 2 * padding (fst size) (snd size))))))"

text \<open>Strategy 3 with its \<open>except Exception: pass\<close>, and the final \<open>return ""\<close>.\<close>

definition enhanced_text :: "ocr_engine \<Rightarrow> pystr \<Rightarrow> pystr" where
  "enhanced_text e path =
     (case enhance e path of
        Inl ex \<Rightarrow> []
      | Inr None \<Rightarrow> []
      | Inr (Some text) \<Rightarrow> text)"

text \<open>Strategy 2 and what follows it.\<close>

definition lenient_onwards :: "ocr_engine \<Rightarrow> pystr \<Rightarrow> exn + pystr" where
  "lenient_onwards e path =
     (if has_predict e then
        bindE (read_text e (predict e path True)) (\<lambda>text.
          if strip text \<noteq> [] then Inr text else Inr (enhanced_text e path))
      else Inr (enhanced_text e path))"

text \<open>The body of the outer \<open>try\<close>.\<close>

definition recognize_body :: "ocr_engine \<Rightarrow> pystr \<Rightarrow> exn + pystr" where
  "recognize_body e image_path =
     (if \<not> path_exists e image_path then Inr []
      else
        bindE (standard_text e image_path) (\<lambda>text.
          if strip text \<noteq> [] then Inr text else lenient_onwards e image_path))"

definition recognize :: "ocr_engine \<Rightarrow> pystr \<Rightarrow> pystr \<times> ocr_engine" where
  "recognize e image_path =
     (case (if \<not> initialized e then initialize e else (True, e)) of
        (False, e1) \<Rightarrow> (lit ''Error: PaddleOCR not initialized or not installed.'', e1)
      | (True, e1) \<Rightarrow>
          (case recognize_body e1 image_path of
             Inl ex \<Rightarrow> (lit ''OCR Error: '' @ exn_str ex, e1)
           | Inr text \<Rightarrow> (text, e1)))"

subsection \<open>The retry wrapper as the specification words it\<close>

text \<open>
  A strategy is the text it extracts, or the exception it raises. The strategies are
  tried in order; the first whose stripped text is not empty gives the result.
\<close>

fun first_nonblank :: "(exn + pystr) list \<Rightarrow> exn + pystr option" where
  "first_nonblank [] = Inr None"
| "first_nonblank (a # as) =
     (case a of
        Inl ex \<Rightarrow> Inl ex
      | Inr text \<Rightarrow> if strip text \<noteq> [] then Inr (Some text) else first_nonblank as)"

text \<open>
  Standard recognition, then lenient recognition; an engine with the old interface
  (no \<open>predict\<close>) has no lenient mode.
\<close>

definition direct_strategies :: "ocr_engine \<Rightarrow> pystr \<Rightarrow> (exn + pystr) list" where
  "direct_strategies e path =
     (if has_predict e
      then [read_text e (ocr_predict e path False), read_text e (ocr_predict e path True)]
      else [read_text e (ocr_ocr e path)])"

text \<open>Recognition of the padded image at one scale.\<close>

definition scaled_strategy :: "ocr_engine \<Rightarrow> pystr \<Rightarrow> int \<Rightarrow> int \<Rightarrow> exn + pystr" where
  "scaled_strategy e path pad scale =
     bindE (save_scaled e path pad scale) (\<lambda>tmp_path.
       read_text e (if has_predict e then ocr_predict e tmp_path True else ocr_ocr e tmp_path))"

text \<open>
  The padded-and-upscaled strategies, at increasing scales; none for an image without
  area or with a padded side of 1100 or more. Preparing them can itself raise.
\<close>

definition scaled_strategies :: "ocr_engine \<Rightarrow> pystr \<Rightarrow> exn + (exn + pystr) list" where
  "scaled_strategies e path =
     bindE (open_image e path) (\<lambda>size.
       if fst size \<le> 0 \<or> snd size \<le> 0 then Inr []
       else
         bindE (expand_image e path (padding (fst size) (snd size))) (\<lambda>u.
           Inr (map (scaled_strategy e path (padding (fst size) (snd size)))
                  (scales_for (max (fst size + 2 * padding (fst size) (snd size))
                                   (snd size + 2 * padding (fst size) (snd size)))))))"

text \<open>
  The result: an exception of a direct strategy is reported as \<open>"OCR Error: ..."\<close>; an
  exception while preparing or running a scaled strategy is swallowed and gives \<open>""\<close>;
  when no strategy yields text the result is \<open>""\<close>.
\<close>

definition recognize_spec :: "ocr_engine \<Rightarrow> pystr \<Rightarrow> pystr" where
  "recognize_spec e path =
     (case first_nonblank (direct_strategies e path) of
        Inl ex \<Rightarrow> lit ''OCR Error: '' @ exn_str ex
      | Inr (Some text) \<Rightarrow> text
      | Inr None \<Rightarrow>
          (case bindE (scaled_strategies e path) first_nonblank of
             Inl ex \<Rightarrow> []
           | Inr None \<Rightarrow> []
           | Inr (Some text) \<Rightarrow> text))"

text \<open>
  An engine whose recognizer finds nothing in the crop itself and raises on the
  upscaled temporary file.
\<close>

definition raising_engine :: ocr_engine where
  "raising_engine =
     \<lparr>initialized = True, can_initialize = True, has_predict = True,
      ocr_predict = (\<lambda>path lenient.
         if path = lit ''tmp.png'' then Inl (External (lit ''boom'')) else Inr (PList [])),
      ocr_ocr = (\<lambda>path. Inr PNone),
      path_exists = (\<lambda>path. True),
      open_image = (\<lambda>path. Inr (100, 80)),
      expand_image = (\<lambda>path pad. Inr ()),
      save_scaled = (\<lambda>path pad scale. Inr (lit ''tmp.png'')),
      value_repr = (\<lambda>v. Inr [])\<rparr>"

text \<open>An engine whose recognizer reads the crop only in lenient mode.\<close>

definition lenient_engine :: ocr_engine where
  "lenient_engine =
     \<lparr>initialized = True, can_initialize = True, has_predict = True,
      ocr_predict = (\<lambda>path lenient.
         if lenient then Inr (PList [PDict [(lit ''rec_texts'', PList [PStr (lit ''HI '')])]])
         else Inr (PList [])),
      ocr_ocr = (\<lambda>path. Inr PNone),
      path_exists = (\<lambda>path. True),
      open_image = (\<lambda>path. Inr (100, 80)),
      expand_image = (\<lambda>path pad. Inr ()),
      save_scaled = (\<lambda>path pad scale. Inr (lit ''tmp.png'')),
      value_repr = (\<lambda>v. Inr [])\<rparr>"

section \<open>\<open>LLMEngine\<close> (\<open>engine/llm.py\<close>)\<close>

text \<open>
  What the engine finds under a path: nothing, a file that \<open>open\<close> refuses (with the
  message of the exception), or the bytes of the file.
\<close>

datatype stored_file = NoFile | NoAccess pystr | Bytes "8 word list"

text \<open>\<open>base64.b64encode\<close> (RFC 4648, with padding), decoded to a string.\<close>

definition b64_alphabet :: pystr where
  "b64_alphabet = lit ''ABCDEFGHIJKLMNOPQRSTUVWXYZabcdefghijklmnopqrstuvwxyz0123456789+/''"

definition b64_digit :: "nat \<Rightarrow> nat" where
  "b64_digit i = b64_alphabet ! (i mod 64)"

fun b64encode :: "8 word list \<Rightarrow> pystr" where
  "b64encode [] = []"
| "b64encode [a] =
     [b64_digit (unat a div 4), b64_digit (unat a mod 4 * 16), 61, 61]"
| "b64encode [a, b] =
     [b64_digit (unat a div 4), b64_digit (unat a mod 4 * 16 + unat b div 16),
      b64_digit (unat b mod 16 * 4), 61]"
| "b64encode (a # b # c # bs) =
     [b64_digit (unat a div 4), b64_digit (unat a mod 4 * 16 + unat b div 16),
      b64_digit (unat b mod 16 * 4 + unat c div 64), b64_digit (unat c mod 64)]
     @ b64encode bs"

text \<open>\<open>encode_image\<close>: \<open>None\<close> when the path does not exist; \<open>open\<close> may raise.\<close>

definition encode_image :: "(pystr \<Rightarrow> stored_file) \<Rightarrow> pystr \<Rightarrow> exn + pystr option" where
  "encode_image files image_path =
     (case files image_path of
        NoFile \<Rightarrow> Inr None
      | NoAccess m \<Rightarrow> Inl (External m)
      | Bytes bs \<Rightarrow> Inr (Some (b64encode bs)))"

text \<open>A chat request: the model, the messages and \<open>max_tokens\<close>.\<close>

datatype part = TextPart pystr | ImageUrlPart pystr

datatype content = Text pystr | Parts "part list"

record request =
  req_model :: pystr
  req_messages :: "(pystr \<times> content) list"
  max_tokens :: nat

text \<open>
  The configuration values an engine attribute can hold, and their truth value.
\<close>

fun truthy_json :: "json \<Rightarrow> bool" where
  "truthy_json JNull = False"
| "truthy_json (JBool b) = b"
| "truthy_json (JInt i) = (i \<noteq> 0)"
| "truthy_json (JFloat r) = (r \<noteq> 0)"
| "truthy_json (JStr s) = (s \<noteq> [])"
| "truthy_json (JArr xs) = (xs \<noteq> [])"
| "truthy_json (JObj d) = (d \<noteq> [])"

text \<open>
  The engine: \<open>client\<close> is \<open>None\<close> until an API key is configured; a configured client
  is the service behind \<open>self.client.chat.completions.create\<close> followed by
  \<open>response.choices[0].message.content\<close>: it raises, or gives the content, a string or
  \<open>None\<close>.
\<close>

record llm_engine =
  client :: "(request \<Rightarrow> exn + pystr option) option"
  model :: pystr
  use_vision :: json

text \<open>The system prompt, with the context of the comic put into it.\<close>

definition system_prompt :: "pystr \<Rightarrow> pystr" where
  "system_prompt context = concat
   [lit ''You are an expert American comic translator and localization '', lit ''editor.'',
      [10], lit ''Context about the comic: '', context, [10, 10], lit ''Task:'', [10],
      lit ''- Translate the input English (often OCR text) into fluent Simplified '',
      lit ''Chinese suitable for comic speech balloons.'', [10, 10], lit ''Rules:'', [10],
      lit ''1. Prefer natural Chinese phrasing; do NOT translate word-for-word.'', [10],
      lit ''2. Maintain the speaker'', [39], lit ''s tone, emotion, and rhythm.'', [10],
      lit ''3. Proper nouns: prioritize official DC/Marvel Chinese names '',
      lit ''(heroes, villains, organizations, locations, aliases). If uncertain, '',
      lit ''keep the original English (or transliterate).'', [10],
      lit ''4. OCR artifacts: treat line breaks and stray periods as layout '',
      lit ''markers, not sentence boundaries. Re-segment by meaning.'', [10],
      lit ''5. Output formatting:'', [10], lit ''   - Use standard Chinese punctuation'',
      [65288, 65292, 12290, 65281, 65311, 8230, 65289, 10],
      lit ''   - Do NOT put every short phrase on its own line.'', [10],
      lit ''   - Only use line breaks to separate different speakers or '',
      lit ''different speech bubbles/paragraphs.'', [10],
      lit ''   - Inside a paragraph, do NOT insert manual line breaks.'', [10],
      lit ''   - If the text likely comes from multiple bubbles, merge into '', lit ''1'',
      [8211], lit ''2 coherent paragraphs when possible.'', [10],
      lit ''6. Return ONLY the translated text. No explanations. Do NOT '',
      lit ''wrap the whole output in quotes.'', [10]]"

definition vision_instruction :: pystr where
  "vision_instruction =
     lit ''Please read the English text in the image and translate it to Simplified Chinese.''"

definition data_url_prefix :: pystr where
  "data_url_prefix = lit ''data:image/jpeg;base64,''"

text \<open>The text part of the user message.\<close>

definition text_parts :: "pystr \<Rightarrow> pystr \<Rightarrow> bool \<Rightarrow> part list" where
  "text_parts text image_path use_vis =
     (if strip text \<noteq> [] then [TextPart (lit ''Original Text:'' @ [10] @ text)]
      else if use_vis \<and> image_path \<noteq> [] then [TextPart vision_instruction]
      else [TextPart (lit ''Original Text:'' @ [10])])"

text \<open>The image part, appended when Vision is on and the encoded image is not empty.\<close>

definition image_parts :: "(pystr \<Rightarrow> stored_file) \<Rightarrow> pystr \<Rightarrow> bool \<Rightarrow> exn + part list" where
  "image_parts files image_path use_vis =
     (if use_vis \<and> image_path \<noteq> [] then
        bindE (encode_image files image_path) (\<lambda>base64_image.
          case base64_image of
            None \<Rightarrow> Inr []
          | Some b \<Rightarrow> if b \<noteq> [] then Inr [ImageUrlPart (data_url_prefix @ b)] else Inr [])
      else Inr [])"

definition user_content :: "(pystr \<Rightarrow> stored_file) \<Rightarrow> pystr \<Rightarrow> pystr \<Rightarrow> bool \<Rightarrow> exn + part list" where
  "user_content files text image_path use_vis =
     bindE (image_parts files image_path use_vis) (\<lambda>img.
       Inr (text_parts text image_path use_vis @ img))"

definition chat_request :: "llm_engine \<Rightarrow> pystr \<Rightarrow> part list \<Rightarrow> request" where
  "chat_request llm context parts =
     \<lparr>req_model = model llm,
      req_messages = [(lit ''system'', Text (system_prompt context)), (lit ''user'', Parts parts)],
      max_tokens = 1000\<rparr>"

section \<open>\<open>TranslationWorker\<close> (\<open>ui/window.py\<close>)\<close>

text \<open>
  What a run does that can be seen from outside: the signals it emits, and the calls it
  makes to the OCR engine, to \<open>llm_engine.translate\<close> and to the API.
\<close>

datatype event =
    Status pystr
  | Finished pystr pystr
  | Error pystr
  | OcrCall pystr
  | TranslateCall pystr pystr pystr bool
  | ApiCall request

text \<open>A computation: the events so far, and a value or the exception that ended it.\<close>

type_synonym 'a act = "event list \<times> (exn + 'a)"

definition bindW :: "'a act \<Rightarrow> ('a \<Rightarrow> 'b act) \<Rightarrow> 'b act" where
  "bindW m f =
     (case m of
        (evs, Inl ex) \<Rightarrow> (evs, Inl ex)
      | (evs, Inr x) \<Rightarrow> (case f x of (evs2, r) \<Rightarrow> (evs @ evs2, r)))"

definition emit :: "event \<Rightarrow> unit act" where
  "emit ev = ([ev], Inr ())"

definition ret :: "'a \<Rightarrow> 'a act" where
  "ret x = ([], Inr x)"

definition lift :: "exn + 'a \<Rightarrow> 'a act" where
  "lift r = ([], r)"

text \<open>
  \<open>LLMEngine.translate(text, context, image_path, use_vision)\<close>. The exception of a
  failed request becomes the returned string; one raised by \<open>encode_image\<close> leaves the
  function.
\<close>

definition translate ::
  "llm_engine \<Rightarrow> (pystr \<Rightarrow> stored_file) \<Rightarrow> pystr \<Rightarrow> pystr \<Rightarrow> pystr \<Rightarrow> bool \<Rightarrow> pystr option act" where
  "translate llm files text context image_path use_vis =
     bindW (emit (TranslateCall text context image_path use_vis)) (\<lambda>u.
       case client llm of
         None \<Rightarrow> ret (Some (lit ''Error: API not configured. Please go to Settings.''))
       | Some create \<Rightarrow>
           bindW (lift (user_content files text image_path use_vis)) (\<lambda>parts.
           bindW (emit (ApiCall (chat_request llm context parts))) (\<lambda>u.
             case create (chat_request llm context parts) of
               Inl ex \<Rightarrow> ret (Some (lit ''API Error: '' @ exn_str ex))
             | Inr reply \<Rightarrow> ret reply)))"

text \<open>
  The worker and its surroundings. \<open>signal_none\<close> is what the \<open>str\<close> argument of a
  signal does with \<open>None\<close>: the string it delivers, or the exception of the emit.
\<close>

record worker =
  llm :: llm_engine
  ocr :: ocr_engine
  files :: "pystr \<Rightarrow> stored_file"
  image_path :: pystr
  ctx :: pystr
  signal_none :: "exn + pystr"

definition vision_status :: pystr where
  "vision_status =
     lit ''Vision '' @ [27169, 24335, 65306, 36339, 36807, 26412, 22320] @ lit '' OCR''
       @ [65292, 30452, 25509, 32763, 35793] @ lit ''...''"

definition vision_ocr_text :: pystr where
  "vision_ocr_text =
     lit ''Vision '' @ [27169, 24335, 65306, 24050, 36339, 36807, 26412, 22320] @ lit '' OCR''"

text \<open>\<open>self.finished.emit(ocr_text, trans_text)\<close>.\<close>

definition emit_finished :: "worker \<Rightarrow> pystr \<Rightarrow> pystr option \<Rightarrow> unit act" where
  "emit_finished w ocr_text trans_text =
     (case trans_text of
        Some t \<Rightarrow> emit (Finished ocr_text t)
      | None \<Rightarrow> bindW (lift (signal_none w)) (\<lambda>t. emit (Finished ocr_text t)))"

text \<open>\<open>ocr_text = ocr_engine.recognize(self.image_path)\<close>.\<close>

definition run_ocr :: "worker \<Rightarrow> pystr act" where
  "run_ocr w =
     bindW (emit (OcrCall (image_path w))) (\<lambda>u. ret (fst (recognize (ocr w) (image_path w))))"

text \<open>The body of the \<open>try\<close> of \<open>run\<close>.\<close>

definition run_body :: "worker \<Rightarrow> unit act" where
  "run_body w =
     (if truthy_json (use_vision (llm w)) then
        bindW (emit (Status vision_status)) (\<lambda>u.
        bindW (translate (llm w) (files w) [] (ctx w) (image_path w) True) (\<lambda>trans_text.
          emit_finished w vision_ocr_text trans_text))
      else
        bindW (emit (Status (lit ''Running OCR...''))) (\<lambda>u.
        bindW (run_ocr w) (\<lambda>ocr_text.
          if startswith ocr_text (lit ''OCR Error:'') then emit (Error ocr_text)
          else if strip ocr_text = [] then emit (Error (lit ''__OCR_NO_TEXT__''))
          else
            bindW (emit (Status (lit ''Translating with LLM...''))) (\<lambda>u.
            bindW (translate (llm w) (files w) ocr_text (ctx w) (image_path w) False)
              (\<lambda>trans_text. emit_finished w ocr_text trans_text)))))"

text \<open>\<open>TranslationWorker.run\<close>: the events of a run.\<close>

definition run :: "worker \<Rightarrow> event list" where
  "run w =
     (case run_body w of
        (evs, Inl ex) \<Rightarrow> evs @ [Error (exn_str ex)]
      | (evs, Inr u) \<Rightarrow> evs)"

text \<open>The two signals that carry a result.\<close>

fun is_result :: "event \<Rightarrow> bool" where
  "is_result (Finished ocr_text trans_text) = True"
| "is_result (Error m) = True"
| "is_result ev = False"

text \<open>The calls recorded in a trace, in their order.\<close>

fun ocr_calls :: "event list \<Rightarrow> pystr list" where
  "ocr_calls [] = []"
| "ocr_calls (OcrCall p # evs) = p # ocr_calls evs"
| "ocr_calls (ev # evs) = ocr_calls evs"

fun translate_calls :: "event list \<Rightarrow> (pystr \<times> pystr \<times> pystr \<times> bool) list" where
  "translate_calls [] = []"
| "translate_calls (TranslateCall t c p v # evs) = (t, c, p, v) # translate_calls evs"
| "translate_calls (ev # evs) = translate_calls evs"

fun api_requests :: "event list \<Rightarrow> request list" where
  "api_requests [] = []"
| "api_requests (ApiCall r # evs) = r # api_requests evs"
| "api_requests (ev # evs) = api_requests evs"

text \<open>What \<open>translate\<close> returns once the request is made.\<close>

definition reply_of :: "(request \<Rightarrow> exn + pystr option) \<Rightarrow> request \<Rightarrow> pystr option" where
  "reply_of create req =
     (case create req of
        Inl ex \<Rightarrow> Some (lit ''API Error: '' @ exn_str ex)
      | Inr reply \<Rightarrow> reply)"

text \<open>The one signal that ends a run whose translation has returned.\<close>

definition final_signal :: "worker \<Rightarrow> pystr \<Rightarrow> pystr option \<Rightarrow> event" where
  "final_signal w ocr_text trans_text =
     (case trans_text of
        Some t \<Rightarrow> Finished ocr_text t
      | None \<Rightarrow> (case signal_none w of
                   Inl ex \<Rightarrow> Error (exn_str ex)
                 | Inr t \<Rightarrow> Finished ocr_text t))"

text \<open>The events from the call of \<open>translate\<close> to the end of the run.\<close>

definition translate_onwards :: "worker \<Rightarrow> pystr \<Rightarrow> pystr \<Rightarrow> bool \<Rightarrow> event list" where
  "translate_onwards w text ocr_text use_vis =
     TranslateCall text (ctx w) (image_path w) use_vis #
     (case client (llm w) of
        None \<Rightarrow>
          [final_signal w ocr_text (Some (lit ''Error: API not configured. Please go to Settings.''))]
      | Some create \<Rightarrow>
          (case user_content (files w) text (image_path w) use_vis of
             Inl ex \<Rightarrow> [Error (exn_str ex)]
           | Inr parts \<Rightarrow>
               [ApiCall (chat_request (llm w) (ctx w) parts),
                final_signal w ocr_text (reply_of create (chat_request (llm w) (ctx w) parts))]))"

text \<open>The string the OCR engine returns to the worker.\<close>

definition ocr_result :: "worker \<Rightarrow> pystr" where
  "ocr_result w = fst (recognize (ocr w) (image_path w))"

text \<open>
  Workers to run: a service that answers, a crop of three bytes, and an OCR engine that
  reads the crop in lenient mode; the same with Vision on; the same with Vision on and
  no file under the path; the same with Vision on and a file that cannot be opened; and
  one with Vision off whose recognizer raises.
\<close>

definition plain_worker :: worker where
  "plain_worker =
     \<lparr>llm = \<lparr>client = Some (\<lambda>req. Inr (Some (lit ''ok''))), model = lit ''m'',
             use_vision = JBool False\<rparr>,
      ocr = lenient_engine,
      files = (\<lambda>p. if p = lit ''crop.png'' then Bytes [77, 97, 110] else NoFile),
      image_path = lit ''crop.png'', ctx = [], signal_none = Inr []\<rparr>"

definition vision_worker :: worker where
  "vision_worker = plain_worker\<lparr>llm := (llm plain_worker)\<lparr>use_vision := JBool True\<rparr>\<rparr>"

definition missing_file_worker :: worker where
  "missing_file_worker = vision_worker\<lparr>files := (\<lambda>p. NoFile)\<rparr>"

definition locked_file_worker :: worker where
  "locked_file_worker = vision_worker\<lparr>files := (\<lambda>p. NoAccess (lit ''denied''))\<rparr>"

definition failing_worker :: worker where
  "failing_worker =
     plain_worker\<lparr>ocr := lenient_engine\<lparr>ocr_predict := (\<lambda>path lenient. Inl (External (lit ''boom'')))\<rparr>\<rparr>"

section \<open>\<open>MainWindow.on_translation_finished\<close> (\<open>ui/window.py\<close>)\<close>

text \<open>
  \<open>s.replace(old, new)\<close>: the occurrences of \<open>old\<close> from left to right, without
  overlap; an empty \<open>old\<close> matches before every character and at the end.
\<close>

function py_replace :: "pystr \<Rightarrow> pystr \<Rightarrow> pystr \<Rightarrow> pystr" where
  "py_replace old new s =
     (if old = [] then new @ concat (map (\<lambda>c. c # new) s)
      else if s = [] then []
      else if take (length old) s = old then new @ py_replace old new (drop (length old) s)
      else hd s # py_replace old new (tl s))"
  by pat_completeness auto
termination
  by (relation "measure (\<lambda>(old, new, s). length s)") auto

declare py_replace.simps [simp del]

text \<open>\<open>s.split("\n")\<close>.\<close>

fun split_nl :: "pystr \<Rightarrow> pystr list" where
  "split_nl [] = [[]]"
| "split_nl (c # cs) =
     (if c = 10 then [] # split_nl cs
      else (case split_nl cs of [] \<Rightarrow> [[c]] | l # ls \<Rightarrow> (c # l) # ls))"

text \<open>
  The test \<open>len(s) >= 2 and s[0] == s[-1] and s[0] in ["'", '"']\<close>, and the removal
  of the wrapping quotes, \<open>s[1:-1]\<close>.
\<close>

definition quote_wrapped :: "pystr \<Rightarrow> bool" where
  "quote_wrapped s = (2 \<le> length s \<and> hd s = last s \<and> (hd s = 39 \<or> hd s = 34))"

definition unquote :: "pystr \<Rightarrow> pystr" where
  "unquote s = (if quote_wrapped s then butlast (tl s) else s)"

text \<open>The set \<open>quote_chars\<close>: the ASCII quotes and twelve typographic ones.\<close>

definition quote_chars :: "nat list" where
  "quote_chars =
     [34, 39, 8220, 8221, 12300, 12301, 12302, 12303, 12298, 12299, 8249, 8250, 171, 187]"

definition is_quote_only :: "pystr \<Rightarrow> bool" where
  "is_quote_only s = (strip s \<noteq> [] \<and> list_all (\<lambda>ch. ch \<in> set quote_chars) (strip s))"

text \<open>
  The loop that builds \<open>enhanced_lines\<close>: every line, and an empty line after it when
  it is not the last, neither it nor the next is blank, and neither is only quotes.
\<close>

fun enhance_lines :: "pystr list \<Rightarrow> pystr list" where
  "enhance_lines [] = []"
| "enhance_lines [line] = [line]"
| "enhance_lines (line # nxt # rest) =
     (if strip line = [] \<or> strip nxt = [] then line # enhance_lines (nxt # rest)
      else if is_quote_only (strip line) \<or> is_quote_only (strip nxt)
      then line # enhance_lines (nxt # rest)
      else line # [] # enhance_lines (nxt # rest))"

text \<open>
  The three \<open>replace\<close> statements that unify the line ends: CR LF and CR become LF,
  then the escaped forms backslash-r-backslash-n and backslash-n become LF.
\<close>

definition unify_newlines :: "pystr \<Rightarrow> pystr" where
  "unify_newlines trans_text =
     (let n1 = py_replace [13, 10] [10] trans_text;
          n2 = py_replace [13] [10] n1
      in py_replace [92, 110] [10] (py_replace [92, 114, 92, 110] [10] n2))"

text \<open>What the handler does to a translation that is a string, before it shows it.\<close>

definition normalize_translation :: "pystr \<Rightarrow> pystr" where
  "normalize_translation trans_text =
     (let n4 = unquote (unify_newlines trans_text)
      in if 1 < length (split_nl n4) then join_nl (enhance_lines (split_nl n4)) else n4)"

text \<open>
  The part of the window the handler writes: the text of the two panes (what
  \<open>setText\<close> was given) and the message of the status bar.
\<close>

record window =
  ocr_text_edit :: pystr
  trans_text_edit :: pystr
  status_bar :: pystr

text \<open>
  \<open>self.trans_text_edit.setText(...)\<close> and the message of the status bar that follows
  it.
\<close>

definition show_translation :: "pystr \<Rightarrow> window \<Rightarrow> window" where
  "show_translation shown win =
     win\<lparr>trans_text_edit := shown, status_bar := lit ''Translation Complete''\<rparr>"

text \<open>
  The handler: the window it leaves, and the exception that ended it, if any. Only
  \<open>str()\<close> of a translation that is not a string can raise, after the OCR pane is set.
\<close>

definition on_translation_finished ::
  "(pyval \<Rightarrow> exn + pystr) \<Rightarrow> pystr \<Rightarrow> pyval \<Rightarrow> window \<Rightarrow> window \<times> exn option" where
  "on_translation_finished repr ocr_text trans_text win =
     (let win1 = win\<lparr>ocr_text_edit := ocr_text\<rparr>
      in case trans_text of
           PStr t \<Rightarrow> (show_translation (normalize_translation t) win1, None)
         | _ \<Rightarrow> (case py_str repr trans_text of
                   Inl e \<Rightarrow> (win1, Some e)
                 | Inr s \<Rightarrow> (show_translation s win1, None)))"

definition empty_window :: window where
  "empty_window = \<lparr>ocr_text_edit = [], trans_text_edit = [], status_bar = []\<rparr>"

text \<open>
  Properties of a shown text. \<open>no_escaped_newline s\<close>: nowhere in \<open>s\<close> a backslash is
  followed by the letter n. \<open>spaced ls\<close>: of two adjacent lines one is blank or made of
  quote characters only, so that no two lines of text follow each other directly.
\<close>

fun no_escaped_newline :: "pystr \<Rightarrow> bool" where
  "no_escaped_newline (a # b # cs) = (\<not> (a = 92 \<and> b = 110) \<and> no_escaped_newline (b # cs))"
| "no_escaped_newline s = True"

fun spaced :: "pystr list \<Rightarrow> bool" where
  "spaced (l # m # ls) =
     ((strip l = [] \<or> strip m = [] \<or> is_quote_only l \<or> is_quote_only m) \<and> spaced (m # ls))"
| "spaced ls = True"

text \<open>
  The lines of a text as the specification words the unification of line ends: a line
  ends at CR LF, at CR, at LF, and at the escaped forms backslash-r-backslash-n and
  backslash-n. \<open>line_end s\<close> is the length of the line end \<open>s\<close> begins with, 0 when it
  begins with none.
\<close>

definition line_end :: "pystr \<Rightarrow> nat" where
  "line_end s =
     (if take 2 s = [13, 10] then 2
      else if take 1 s = [13] \<or> take 1 s = [10] then 1
      else if take 4 s = [92, 114, 92, 110] then 4
      else if take 2 s = [92, 110] then 2
      else 0)"

function text_lines :: "pystr \<Rightarrow> pystr list" where
  "text_lines s =
     (if s = [] then [[]]
      else if 0 < line_end s then [] # text_lines (drop (line_end s) s)
      else (case text_lines (tl s) of
              [] \<Rightarrow> [[hd s]]
            | l # ls \<Rightarrow> (hd s # l) # ls))"
  by pat_completeness auto
termination
  by (relation "measure length") auto

declare text_lines.simps [simp del]

section \<open>\<open>ImageCanvas\<close> (\<open>ui/canvas.py\<close>)\<close>

subsection \<open>Rectangles and pixmaps of Qt\<close>

text \<open>
  A \<open>QRect\<close> has integer and a \<open>QRectF\<close> real coordinates; both are given by left, top,
  width and height. The functions below are those of Qt 6 that the canvas calls; the
  coordinates of a \<open>QRectF\<close> are real numbers here (the rounding of floating-point
  arithmetic and the saturation of \<open>qRound\<close> at the limits of \<open>int\<close> are left out).
\<close>

record qrect =
  r_left :: int
  r_top :: int
  r_width :: int
  r_height :: int

record qrectf =
  f_left :: real
  f_top :: real
  f_width :: real
  f_height :: real














text \<open>
  A \<open>QPixmap\<close>: its size and its pixels. A pixmap that could not be loaded is null and
  has no size. The device pixel ratio of a loaded pixmap is 1.
\<close>

record pixmap =
  pix_width :: nat
  pix_height :: nat
  pixel :: "int \<Rightarrow> int \<Rightarrow> nat"








subsection \<open>The canvas\<close>

text \<open>
  The attributes of the canvas that \<open>load_image\<close> and \<open>mouseReleaseEvent\<close> read and
  write. \<open>rubber_band\<close> is the geometry of the rubber band, in coordinates of the
  viewport. \<open>map_to_scene\<close> is \<open>self.mapToScene(rect).boundingRect()\<close>: it depends on the
  transformation and the scroll position of the view, which zooming, panning and
  resizing change.
\<close>

datatype button = LeftButton | RightButton | OtherButton

datatype cursor_shape = ArrowCursor | ClosedHandCursor

record canvas =
  current_pixmap :: "pixmap option"
  pixmap_item :: "pixmap option"
  has_user_transform :: bool
  is_selecting :: bool
  rubber_band :: qrect
  rubber_band_shown :: bool
  is_panning :: bool
  cursor_shown :: cursor_shape
  map_to_scene :: "qrect \<Rightarrow> qrectf"

text \<open>
  \<open>load_image(image_path)\<close>. \<open>loaded\<close> is \<open>QPixmap(image_path)\<close>, and \<open>fitted\<close> is the
  mapping of the view after \<open>resetTransform\<close>, \<open>setSceneRect\<close>, \<open>fitInView\<close> and
  \<open>centerOn\<close>.
\<close>

definition load_image :: "pixmap \<Rightarrow> (qrect \<Rightarrow> qrectf) \<Rightarrow> canvas \<Rightarrow> canvas" where
  "load_image loaded fitted c =
     c\<lparr>has_user_transform := False, current_pixmap := Some loaded,
       pixmap_item := Some loaded, map_to_scene := fitted\<rparr>"





text \<open>
  The state in which the item of the scene shows the current pixmap, as \<open>load_image\<close>
  leaves it, and the selection of the rubber band in the scene.
\<close>

definition shows_pixmap :: "canvas \<Rightarrow> bool" where
  "shows_pixmap c = (case current_pixmap c of None \<Rightarrow> True | Some pm \<Rightarrow> pixmap_item c = Some pm)"






section \<open>Properties of the string functions\<close>

lemma dropWhile_self: "xs = [] \<or> \<not> P (hd xs) \<Longrightarrow> dropWhile P xs = xs"
  by (cases xs) auto

lemma last_dropWhile_ne: "dropWhile P xs \<noteq> [] \<Longrightarrow> last (dropWhile P xs) = last xs"
  by (induction xs) auto

lemma strip_props: "strip s = [] \<or> (\<not> is_space (hd (strip s)) \<and> \<not> is_space (last (strip s)))"
proof (cases "strip s = []")
  case True then show ?thesis by simp
next
  case False
  let ?t = "dropWhile is_space s"
  let ?u = "dropWhile is_space (rev ?t)"
  have u: "?u \<noteq> []" using False by (simp add: strip_def)
  then have hu: "\<not> is_space (hd ?u)" by (rule hd_dropWhile)
  have t: "?t \<noteq> []" using u by (cases "?t = []") simp_all
  then have ht: "\<not> is_space (hd ?t)" by (rule hd_dropWhile)
  have "last (strip s) = hd ?u" using u by (simp add: strip_def last_rev)
  moreover have "hd (strip s) = last ?u" using u by (simp add: strip_def hd_rev)
  moreover have "last ?u = last (rev ?t)" using u by (rule last_dropWhile_ne)
  moreover have "last (rev ?t) = hd ?t" using t by (simp add: last_rev)
  ultimately show ?thesis using hu ht by simp
qed

lemma strip_strip: "strip (strip s) = strip s"
proof -
  let ?u = "strip s"
  from strip_props [of s] have a: "dropWhile is_space ?u = ?u"
    by (intro dropWhile_self) auto
  from strip_props [of s] have b: "dropWhile is_space (rev ?u) = rev ?u"
    by (intro dropWhile_self) (auto simp: hd_rev)
  show ?thesis unfolding strip_def [of "strip s"] a b by simp
qed

lemma bindE_Inr [simp]: "bindE (Inr x) f = f x"
  by (simp add: bindE_def)

lemma bindE_Inl [simp]: "bindE (Inl e) f = Inl e"
  by (simp add: bindE_def)

section \<open>Properties of \<open>_extract_text\<close>\<close>

lemma ok_lines_Inr [simp]: "ok_lines (Inr ls) = list_all clean_line ls"
  by (simp add: ok_lines_def)

lemma ok_lines_Inl [simp]: "ok_lines (Inl e) = False"
  by (simp add: ok_lines_def)

lemma ok_linesE: "ok_lines r \<Longrightarrow> \<exists>ls. r = Inr ls \<and> list_all clean_line ls"
  by (cases r) simp_all

lemma returns_Inr [simp]: "returns (Inr x) = True"
  by (simp add: returns_def)

lemma returns_Inl [simp]: "returns (Inl e) = False"
  by (simp add: returns_def)

lemma clean_strip: "strip s \<noteq> [] \<Longrightarrow> clean_line (strip s)"
  by (simp add: clean_line_def strip_strip)

lemma add_text_ok: "list_all clean_line ls \<Longrightarrow> ok_lines (add_text ls x)"
  by (cases x) (simp_all add: add_text_def str_and_nonblank_def append_stripped_def clean_strip)

text \<open>
  A loop over items whose step returns clean lines on the items that satisfy \<open>P\<close> and
  raises on the others: it returns clean lines when every item satisfies \<open>P\<close>, and
  raises otherwise.
\<close>

lemma foldE_cases:
  assumes ok: "\<And>ls x. P x \<Longrightarrow> list_all clean_line ls \<Longrightarrow> ok_lines (f ls x)"
    and bad: "\<And>ls x. \<not> P x \<Longrightarrow> list_all clean_line ls \<Longrightarrow> \<exists>e. f ls x = Inl e"
  shows "list_all clean_line ls \<Longrightarrow>
    (if list_all P xs then ok_lines (foldE f xs ls) else (\<exists>e. foldE f xs ls = Inl e))"
proof (induction xs arbitrary: ls)
  case Nil then show ?case by simp
next
  case (Cons x xs)
  show ?case
  proof (cases "P x")
    case False
    from bad [OF False Cons.prems] show ?thesis using False by auto
  next
    case True
    from ok [OF True Cons.prems] obtain ls1 where s: "f ls x = Inr ls1" and c: "list_all clean_line ls1"
      by (auto dest: ok_linesE)
    show ?thesis using Cons.IH [OF c] True s by simp
  qed
qed

lemma foldE_ok:
  assumes "\<And>ls x. list_all clean_line ls \<Longrightarrow> ok_lines (f ls x)"
  shows "list_all clean_line ls \<Longrightarrow> ok_lines (foldE f xs ls)"
  using foldE_cases [where P = "\<lambda>x. True" and f = f and ls = ls and xs = xs] assms
  by (simp add: list_all_iff)

lemma dict_item_key_ok:
  "list_all clean_line ls \<Longrightarrow> ok_lines (dict_item_key (PDict d) ls key)"
proof -
  assume ls: "list_all clean_line ls"
  show ?thesis
  proof (cases "is_list (dict_value d key)")
    case False
    then show ?thesis using ls by (simp add: dict_item_key_def)
  next
    case True
    then obtain xs where "dict_value d key = PList xs" by (cases "dict_value d key") simp_all
    then show ?thesis using ls foldE_ok [of add_text ls xs, OF add_text_ok]
      by (simp add: dict_item_key_def)
  qed
qed

lemma dict_item_cases:
  assumes ls: "list_all clean_line ls"
  shows "if plain_item (PDict d) then ok_lines (dict_item ls (PDict d))
         else (\<exists>e. dict_item ls (PDict d) = Inl e)"
proof -
  have "ok_lines (foldE (\<lambda>l k. dict_item_key (PDict d) l k) [lit ''rec_texts'', lit ''texts''] ls)"
    by (rule foldE_ok [OF dict_item_key_ok ls])
  then obtain ls1 where f: "foldE (dict_item_key (PDict d)) [lit ''rec_texts'', lit ''texts''] ls = Inr ls1"
    and c: "list_all clean_line ls1"
    by (auto dest: ok_linesE)
  show ?thesis
  proof (cases "truthy (dict_value d (lit ''rec_text''))")
    case (Inl e)
    then show ?thesis unfolding dict_item_def f by simp
  next
    case (Inr b)
    then show ?thesis unfolding dict_item_def f using add_text_ok [OF c] by simp
  qed
qed

lemma pair_item_ok:
  assumes ls: "list_all clean_line ls"
  shows "ok_lines (pair_item ls item)"
proof (cases "is_list_or_tuple item \<and> (\<exists>xs. py_iter item = Inr xs \<and> 2 \<le> length xs)")
  case False
  then show ?thesis using ls by (cases item) (simp_all add: pair_item_def)
next
  case True
  then obtain xs where xs: "py_iter item = Inr xs" "2 \<le> length xs" by blast
  with True have len: "py_len item = Inr (length xs)" and g: "py_getitem item 1 = Inr (xs ! 1)"
    by (cases item; auto simp: index_list_def)+
  let ?second = "xs ! 1"
  show ?thesis
  proof (cases "is_list_or_tuple ?second \<and> (\<exists>ys. py_iter ?second = Inr ys \<and> 1 \<le> length ys)")
    case False
    then show ?thesis using ls True xs len g
      by (cases ?second) (simp_all add: pair_item_def)
  next
    case T2: True
    then obtain ys where ys: "py_iter ?second = Inr ys" "1 \<le> length ys" by blast
    with T2 have len2: "py_len ?second = Inr (length ys)" and g2: "py_getitem ?second 0 = Inr (ys ! 0)"
      by (cases ?second; auto simp: index_list_def)+
    show ?thesis using True T2 xs ys len g len2 g2 add_text_ok [OF ls]
      by (simp add: pair_item_def)
  qed
qed

lemma item_step_ok:
  assumes p: "plain_item item" and ls: "list_all clean_line ls"
  shows "ok_lines (item_step ls item)"
proof (cases item)
  case (PDict d)
  then show ?thesis using dict_item_cases [OF ls, of d] p by (simp add: item_step_def)
qed (use ls in \<open>simp_all add: item_step_def pair_item_ok append_stripped_def clean_strip\<close>)

lemma item_step_raises:
  assumes p: "\<not> plain_item item" and ls: "list_all clean_line ls"
  shows "\<exists>e. item_step ls item = Inl e"
proof (cases item)
  case (PDict d)
  then show ?thesis using dict_item_cases [OF ls, of d] p by (simp add: item_step_def)
qed (use p in simp_all)

lemma unwrap_nested_list: "unwrap_nested (PList xs) = Inr (PList (loop_items xs))"
proof (cases xs)
  case Nil then show ?thesis by (simp add: unwrap_nested_def)
next
  case (Cons x ys)
  show ?thesis
  proof (cases ys)
    case Nil
    then show ?thesis using Cons by (cases x) (simp_all add: unwrap_nested_def index_list_def)
  next
    case (Cons y zs)
    then show ?thesis using \<open>xs = x # ys\<close> by (cases x) (simp_all add: unwrap_nested_def)
  qed
qed

lemma join_nl_single: "clean_line l \<Longrightarrow> \<exists>ls. l = join_nl ls \<and> list_all clean_line ls"
  by (rule exI [of _ "[l]"]) simp

lemma join_nl_empty: "\<exists>ls. [] = join_nl ls \<and> list_all clean_line ls"
  by (rule exI [of _ "[]"]) simp

lemma strip_lines: "\<exists>ls. strip s = join_nl ls \<and> list_all clean_line ls"
  by (cases "strip s = []") (auto intro: join_nl_single join_nl_empty clean_strip simp del: join_nl.simps)

lemma str_step_ok:
  "returns (py_str repr x) \<Longrightarrow> list_all clean_line ls \<Longrightarrow> ok_lines (str_step repr ls x)"
  by (cases "py_str repr x") (simp_all add: str_step_def clean_strip)

lemma str_step_raises:
  "\<not> returns (py_str repr x) \<Longrightarrow> \<exists>e. str_step repr ls x = Inl e"
  by (cases "py_str repr x") (simp_all add: str_step_def)

lemma str_loop_cases:
  "if list_all (\<lambda>x. returns (py_str repr x)) xs then ok_lines (foldE (str_step repr) xs [])
   else (\<exists>e. foldE (str_step repr) xs [] = Inl e)"
  by (rule foldE_cases) (simp_all add: str_step_ok str_step_raises)

lemma dict_text_cases:
  "if list_all (\<lambda>x. returns (py_str repr x)) (deciding_list d keys)
   then (\<exists>ls. dict_text repr (PDict d) keys = Inr (join_nl ls) \<and> list_all clean_line ls)
   else (\<exists>e. dict_text repr (PDict d) keys = Inl e)"
proof (induction keys)
  case Nil
  then show ?case using join_nl_empty by simp
next
  case (Cons key keys)
  show ?case
  proof (cases "dict_value d key")
    case (PList xs)
    show ?thesis
    proof (cases "list_all (\<lambda>x. returns (py_str repr x)) xs")
      case True
      with str_loop_cases [of repr xs] obtain ls where "foldE (str_step repr) xs [] = Inr ls"
        "list_all clean_line ls" by (auto dest: ok_linesE)
      then show ?thesis using PList True by auto
    next
      case False
      with str_loop_cases [of repr xs] obtain e where "foldE (str_step repr) xs [] = Inl e"
        by auto
      then show ?thesis using PList False by auto
    qed
  next
    case (PStr s)
    then show ?thesis using strip_lines by simp
  qed (use Cons in simp_all)
qed

lemma item_loop_cases:
  "if list_all plain_item xs then ok_lines (foldE item_step xs [])
   else (\<exists>e. foldE item_step xs [] = Inl e)"
  by (rule foldE_cases) (simp_all add: item_step_ok item_step_raises)

text \<open>
  Claim C4, as amended. The normalizer \<open>_extract_text\<close> has no exception handler, and
  it makes two calls on values whose type it has not checked: the truth test of what a
  dict item of a list holds under \<open>"rec_text"\<close>, and \<open>str()\<close> of the elements of the list
  that decides for a dict. On every value for which these calls return
  (\<open>plain_result\<close>: \<open>None\<close>, a string, a dict, a list or tuple nested in any way, any
  other object) it returns a string and raises nothing, and the string is a
  newline-join of lines that are not blank and have nothing left to strip. On every
  other value it raises.
\<close>

theorem extract_text_total:
  "(plain_result repr result \<longrightarrow>
      (\<exists>ls. extract_text repr result = Inr (join_nl ls) \<and> list_all clean_line ls))
   \<and> (\<not> plain_result repr result \<longrightarrow> (\<exists>e. extract_text repr result = Inl e))"
proof (cases result)
  case PNone
  then show ?thesis using join_nl_empty by (simp add: extract_text_def)
next
  case (PStr s)
  then show ?thesis using strip_lines by (simp add: extract_text_def)
next
  case (PDict d)
  then show ?thesis
    using dict_text_cases [of repr d "[lit ''rec_texts'', lit ''texts'', lit ''text'', lit ''result'']"]
    by (simp add: extract_text_def del: dict_text.simps deciding_list.simps split: if_splits)
next
  case (PTuple xs)
  then show ?thesis using join_nl_empty by (simp add: extract_text_def)
next
  case (POther s t)
  then show ?thesis using join_nl_empty by (simp add: extract_text_def)
next
  case (PList xs)
  show ?thesis
  proof (cases "xs = []")
    case True
    then show ?thesis using PList join_nl_empty by (simp add: extract_text_def)
  next
    case False
    show ?thesis
    proof (cases "list_all plain_item (loop_items xs)")
      case True
      with item_loop_cases [of "loop_items xs"] obtain ls where
        "foldE item_step (loop_items xs) [] = Inr ls" "list_all clean_line ls"
        by (auto dest: ok_linesE)
      then show ?thesis using PList False True
        by (auto simp: extract_text_def unwrap_nested_list)
    next
      case F: False
      with item_loop_cases [of "loop_items xs"] obtain e where
        "foldE item_step (loop_items xs) [] = Inl e" by auto
      then show ?thesis using PList False F
        by (auto simp: extract_text_def unwrap_nested_list)
    qed
  qed
qed

theorem extract_text_total_witness:
  "plain_result (\<lambda>v. Inr [])
     (PList [PList [PNone, PStr (lit '' Hello ''), PDict [(lit ''rec_text'', PStr (lit ''World''))],
                    PList [PNone, PTuple [PStr (lit ''old''), PNone]]]])
   \<and> (\<exists>ls. extract_text (\<lambda>v. Inr [])
         (PList [PList [PNone, PStr (lit '' Hello ''), PDict [(lit ''rec_text'', PStr (lit ''World''))],
                        PList [PNone, PTuple [PStr (lit ''old''), PNone]]]]) = Inr (join_nl ls)
        \<and> list_all clean_line ls)
   \<and> \<not> plain_result (\<lambda>v. Inr []) (PDict [(lit ''texts'', PList [POther (Inl TypeError) (Inr True)])])
   \<and> (\<exists>e. extract_text (\<lambda>v. Inr [])
         (PDict [(lit ''texts'', PList [POther (Inl TypeError) (Inr True)])]) = Inl e)"
proof -
  have a: "plain_result (\<lambda>v. Inr [])
     (PList [PList [PNone, PStr (lit '' Hello ''), PDict [(lit ''rec_text'', PStr (lit ''World''))],
                    PList [PNone, PTuple [PStr (lit ''old''), PNone]]]])"
    by (simp add: dict_value_def lit_def)
  have b: "\<not> plain_result (\<lambda>v. Inr []) (PDict [(lit ''texts'', PList [POther (Inl TypeError) (Inr True)])])"
    by (simp add: dict_value_def lit_def)
  show ?thesis
    using a b
      extract_text_total [of "\<lambda>v. Inr []"
        "PList [PList [PNone, PStr (lit '' Hello ''), PDict [(lit ''rec_text'', PStr (lit ''World''))],
                       PList [PNone, PTuple [PStr (lit ''old''), PNone]]]]"]
      extract_text_total [of "\<lambda>v. Inr []"
        "PDict [(lit ''texts'', PList [POther (Inl TypeError) (Inr True)])]"]
    by blast
qed

text \<open>
  The claim as it was stated fails for a list with a dict item that holds, under
  \<open>"rec_text"\<close>, an object whose truth test raises, as an array of more than one
  element does: the exception leaves \<open>_extract_text\<close>.
\<close>

theorem extract_text_raises:
  "extract_text (\<lambda>v. Inr [])
     (PList [PDict [(lit ''rec_text'', POther (Inr (lit ''[1 2]'')) (Inl ValueError))]])
   = Inl ValueError"
  by (simp add: extract_text_def unwrap_nested_def index_list_def item_step_def dict_item_def
      dict_item_key_def dict_value_def lit_def)

section \<open>Properties of the configuration file\<close>

lemma map_of_fold_update:
  "distinct (map fst data) \<Longrightarrow>
   map_of (fold (\<lambda>kv. AList.update (fst kv) (snd kv)) data d) k =
     (case map_of data k of None \<Rightarrow> map_of d k | Some v \<Rightarrow> Some v)"
proof (induction data arbitrary: d)
  case Nil
  then show ?case by simp
next
  case (Cons kv data)
  have notin: "map_of data (fst kv) = None"
    using Cons.prems by (simp add: map_of_eq_None_iff)
  show ?case
  proof (cases "k = fst kv")
    case True
    then show ?thesis using Cons notin by (simp add: update_conv')
  next
    case False
    then show ?thesis using Cons by (simp add: update_conv' split: option.splits)
  qed
qed

lemma load_config_value:
  "load_config fs = Inr (case cfile fs of Parsed v \<Rightarrow> v | Missing \<Rightarrow> JObj [] | Unreadable \<Rightarrow> JObj [] | Malformed \<Rightarrow> JObj [])"
  by (cases "cfile fs") (simp_all add: load_config_def path_exists_cfg_def read_json_def)

lemma load_config_Inr: "\<exists>c. load_config fs = Inr c"
  by (simp add: load_config_value)

lemma load_config_Parsed: "load_config (fs\<lparr>cfile := Parsed v\<rparr>) = Inr v"
  by (simp add: load_config_value)

text \<open>
  Claim C9. \<open>load_config\<close> raises nothing and always returns a value: the parsed
  content when the file exists and parses, and the empty dict when the file does not
  exist, cannot be read or is not JSON.
\<close>

theorem load_config_total:
  "load_config fs = Inr (case cfile fs of Parsed v \<Rightarrow> v | Missing \<Rightarrow> JObj [] | Unreadable \<Rightarrow> JObj [] | Malformed \<Rightarrow> JObj [])"
  by (cases "cfile fs") (simp_all add: load_config_def path_exists_cfg_def read_json_def)

lemma save_config_cases:
  "save_config data fs =
     (case load_config fs of
        Inr (JObj d) \<Rightarrow>
          (case disk fs of
             WriteOk \<Rightarrow> (True, fs\<lparr>cfile := Parsed (JObj (fold (\<lambda>kv. AList.update (fst kv) (snd kv)) data d))\<rparr>)
           | OpenFails \<Rightarrow> (False, fs)
           | WriteFails \<Rightarrow> (False, fs\<lparr>cfile := Malformed\<rparr>))
      | _ \<Rightarrow> (False, fs))"
proof -
  obtain c where c: "load_config fs = Inr c" using load_config_Inr by blast
  show ?thesis
    by (cases c; cases "disk fs")
       (simp_all add: c save_config_def save_steps_def dict_update_def write_json_def)
qed

lemma save_config_ok:
  "load_config fs = Inr (JObj d) \<Longrightarrow> disk fs = WriteOk \<Longrightarrow>
   save_config data fs =
     (True, fs\<lparr>cfile := Parsed (JObj (fold (\<lambda>kv. AList.update (fst kv) (snd kv)) data d))\<rparr>)"
  by (simp add: save_config_cases)

lemma save_config_TrueD:
  assumes "fst (save_config data fs)"
  shows "\<exists>d. load_config fs = Inr (JObj d) \<and> disk fs = WriteOk"
proof -
  obtain c where c: "load_config fs = Inr c" using load_config_Inr by blast
  show ?thesis using assms
    by (cases c; cases "disk fs") (simp_all add: save_config_cases c)
qed

text \<open>
  Claim C8. \<open>save_config\<close> reads, merges and writes. It raises nothing: it returns
  \<open>True\<close> when no step of its body raised and \<open>False\<close> when one did. After a
  successful call with a dict \<open>data\<close>, the stored configuration maps every key of
  \<open>data\<close> to the value \<open>data\<close> gives it and every other key to what was stored for it
  before.
\<close>

theorem save_config_merge:
  assumes "distinct (map fst data)"
  shows "fst (save_config data fs) = (fst (save_steps data fs) = Inr ())
       \<and> (fst (save_config data fs) \<longrightarrow>
            (\<forall>k. stored (snd (save_config data fs)) k =
                 (case map_of data k of None \<Rightarrow> stored fs k | Some v \<Rightarrow> Some v)))"
proof (intro conjI impI allI)
  show "fst (save_config data fs) = (fst (save_steps data fs) = Inr ())"
    by (cases "save_steps data fs"; cases "fst (save_steps data fs)") (auto simp: save_config_def)
next
  fix k
  assume "fst (save_config data fs)"
  then obtain d where d: "load_config fs = Inr (JObj d)" and w: "disk fs = WriteOk"
    using save_config_TrueD by blast
  have old: "stored fs k = map_of d k"
    by (simp add: stored_def d)
  have new: "stored (snd (save_config data fs)) k
      = map_of (fold (\<lambda>kv. AList.update (fst kv) (snd kv)) data d) k"
    by (simp add: save_config_ok [OF d w] stored_def load_config_Parsed)
  show "stored (snd (save_config data fs)) k =
                 (case map_of data k of None \<Rightarrow> stored fs k | Some v \<Rightarrow> Some v)"
    unfolding new old by (rule map_of_fold_update [OF assms])
qed

theorem save_config_merge_witness:
  "distinct (map fst [(lit ''model'', JStr (lit ''m2''))])
   \<and> fst (save_config [(lit ''model'', JStr (lit ''m2''))]
         \<lparr>cfile = Parsed (JObj [(lit ''api_key'', JStr (lit ''k'')), (lit ''model'', JStr (lit ''m1''))]), disk = WriteOk\<rparr>)
   \<and> stored (snd (save_config [(lit ''model'', JStr (lit ''m2''))]
         \<lparr>cfile = Parsed (JObj [(lit ''api_key'', JStr (lit ''k'')), (lit ''model'', JStr (lit ''m1''))]), disk = WriteOk\<rparr>)) (lit ''model'')
       = Some (JStr (lit ''m2''))
   \<and> stored (snd (save_config [(lit ''model'', JStr (lit ''m2''))]
         \<lparr>cfile = Parsed (JObj [(lit ''api_key'', JStr (lit ''k'')), (lit ''model'', JStr (lit ''m1''))]), disk = WriteOk\<rparr>)) (lit ''api_key'')
       = Some (JStr (lit ''k''))"
  using save_config_merge [of "[(lit ''model'', JStr (lit ''m2''))]"
     "\<lparr>cfile = Parsed (JObj [(lit ''api_key'', JStr (lit ''k'')), (lit ''model'', JStr (lit ''m1''))]), disk = WriteOk\<rparr>"]
  by (simp add: save_config_cases load_config_value stored_def lit_def)

section \<open>Properties of the model history\<close>

lemma clean_loop_inv:
  "distinct cleaned \<Longrightarrow> seen = set cleaned \<Longrightarrow>
   distinct (fst (clean_loop items (cleaned, seen)))
   \<and> snd (clean_loop items (cleaned, seen)) = set (fst (clean_loop items (cleaned, seen)))"
proof (induction items arbitrary: cleaned seen)
  case Nil
  then show ?case by simp
next
  case (Cons item items)
  show ?case
  proof (cases item)
    case (JStr s)
    show ?thesis
    proof (cases "strip s = [] \<or> strip s \<in> seen")
      case True
      then show ?thesis using Cons JStr by simp
    next
      case False
      have d: "distinct (cleaned @ [strip s])" using False Cons.prems by simp
      have i: "insert (strip s) seen = set (cleaned @ [strip s])" using Cons.prems by simp
      have step: "clean_loop (item # items) (cleaned, seen)
          = clean_loop items (cleaned @ [strip s], insert (strip s) seen)"
        using False JStr by simp
      show ?thesis unfolding step by (rule Cons.IH [OF d i])
    qed
  qed (use Cons in simp_all)
qed

lemma load_successful_models_distinct:
  "load_successful_models fs = Inr ms \<Longrightarrow> distinct ms"
proof -
  assume a: "load_successful_models fs = Inr ms"
  obtain c where c: "load_config fs = Inr c" using load_config_Inr by blast
  show ?thesis
  proof (cases c)
    case (JObj d)
    obtain v where v: "json_get c (lit ''successful_models'') (JArr []) = Inr v"
      by (simp add: json_get_def JObj)
    show ?thesis
    proof (cases v)
      case (JArr items)
      have "distinct (fst (clean_loop items ([], {})))"
        using clean_loop_inv [of "[]" "{}" items] by simp
      then show ?thesis using a by (simp add: load_successful_models_def c v JArr)
    qed (use a in \<open>simp_all add: load_successful_models_def c v\<close>)
  qed (use a in \<open>simp_all add: load_successful_models_def c json_get_def\<close>)
qed

lemma load_successful_models_obj:
  "load_config fs = Inr (JObj d) \<Longrightarrow> \<exists>ms. load_successful_models fs = Inr ms"
  by (simp add: load_successful_models_def json_get_def split: json.splits option.splits)

lemma json_strs_map: "json_strs (map JStr ms) = Some ms"
  by (induction ms) simp_all

lemma stored_after_update:
  "stored (fs\<lparr>cfile := Parsed (JObj (AList.update k v d))\<rparr>) k = Some v"
  by (simp add: stored_def load_config_Parsed update_conv')

lemma mru_shape:
  "distinct ms \<Longrightarrow>
   take 30 (m # filter (\<lambda>x. x \<noteq> m) ms) \<noteq> []
   \<and> hd (take 30 (m # filter (\<lambda>x. x \<noteq> m) ms)) = m
   \<and> distinct (take 30 (m # filter (\<lambda>x. x \<noteq> m) ms))
   \<and> length (take 30 (m # filter (\<lambda>x. x \<noteq> m) ms)) \<le> 30"
proof -
  assume "distinct ms"
  then have "distinct (m # filter (\<lambda>x. x \<noteq> m) ms)" by simp
  then have "distinct (take 30 (m # filter (\<lambda>x. x \<noteq> m) ms))" by (rule distinct_take)
  moreover have "take 30 (m # filter (\<lambda>x. x \<noteq> m) ms) = m # take 29 (filter (\<lambda>x. x \<noteq> m) ms)"
    by (simp add: take_Cons')
  ultimately show ?thesis by simp
qed

lemma load_successful_models_not_object:
  "load_config fs = Inr v \<Longrightarrow> \<not> is_object v \<Longrightarrow> load_successful_models fs = Inl AttributeError"
  by (cases v) (simp_all add: load_successful_models_def json_get_def)

lemma save_config_open_fails:
  "load_config fs = Inr (JObj d) \<Longrightarrow> disk fs = OpenFails \<Longrightarrow> snd (save_config data fs) = fs"
  by (simp add: save_config_def save_steps_def dict_update_def write_json_def)

lemma save_config_write_fails:
  "load_config fs = Inr (JObj d) \<Longrightarrow> disk fs = WriteFails \<Longrightarrow>
   snd (save_config data fs) = fs\<lparr>cfile := Malformed\<rparr>"
  by (simp add: save_config_def save_steps_def dict_update_def write_json_def)

lemma stored_models_malformed: "stored_models (fs\<lparr>cfile := Malformed\<rparr>) = None"
  by (simp add: stored_models_def stored_def load_config_def path_exists_cfg_def read_json_def)

text \<open>
  Claim C10, as amended. Let the stored configuration be a JSON object (or let there be
  no file that parses), and let the name be not blank. Then \<open>_save_successful_model\<close>
  returns, whatever the write does, and with \<open>old\<close> the list that
  \<open>_load_successful_models\<close> reads, which has no duplicates:
  \<^item> when the write succeeds, the stored list is the stripped name followed by \<open>old\<close>
    without that name, cut to 30 entries: it has the stripped name first, no
    duplicates and at most 30 entries;
  \<^item> when the file cannot be opened for writing, it is left as it was, and the name is
    not stored;
  \<^item> when the write fails after the file was opened and truncated, the file holds no
    JSON and no list is stored any more.
  When the stored configuration is JSON but not an object, the call raises
  \<open>AttributeError\<close>. For \<open>None\<close>, an empty or a whitespace-only name nothing changes.
\<close>

theorem save_successful_model_mru:
  "(load_config (dlg_fs dlg) = Inr (JObj d) \<and> strip m \<noteq> [] \<longrightarrow>
      (\<exists>old dlg1. load_successful_models (dlg_fs dlg) = Inr old \<and> distinct old
         \<and> save_successful_model (Some m) dlg = Inr dlg1
         \<and> (disk (dlg_fs dlg) = WriteOk \<longrightarrow>
              (\<exists>ms. stored_models (dlg_fs dlg1) = Some ms
                 \<and> ms = take 30 (strip m # filter (\<lambda>x. x \<noteq> strip m) old)
                 \<and> ms \<noteq> [] \<and> hd ms = strip m \<and> distinct ms \<and> length ms \<le> 30))
         \<and> (disk (dlg_fs dlg) = OpenFails \<longrightarrow> dlg_fs dlg1 = dlg_fs dlg)
         \<and> (disk (dlg_fs dlg) = WriteFails \<longrightarrow>
              cfile (dlg_fs dlg1) = Malformed \<and> stored_models (dlg_fs dlg1) = None)))
   \<and> (load_config (dlg_fs dlg) = Inr v \<and> \<not> is_object v \<and> strip m \<noteq> [] \<longrightarrow>
        save_successful_model (Some m) dlg = Inl AttributeError)
   \<and> (strip m = [] \<longrightarrow> save_successful_model (Some m) dlg = Inr dlg)
   \<and> save_successful_model None dlg = Inr dlg"
proof (intro conjI impI)
  assume a: "load_config (dlg_fs dlg) = Inr (JObj d) \<and> strip m \<noteq> []"
  then obtain ms0 where ms0: "load_successful_models (dlg_fs dlg) = Inr ms0"
    using load_successful_models_obj by blast
  let ?ms = "take 30 (strip m # filter (\<lambda>x. x \<noteq> strip m) ms0)"
  let ?data = "[(lit ''successful_models'', JArr (map JStr ?ms))]"
  let ?dlg1 = "dlg\<lparr>dlg_fs := snd (save_config ?data (dlg_fs dlg)),
                       model_combo := update_combo (strip m) (model_combo dlg)\<rparr>"
  have run: "save_successful_model (Some m) dlg = Inr ?dlg1"
    using a by (simp add: save_successful_model_def ms0 Let_def)
  have d0: "distinct ms0" using ms0 by (rule load_successful_models_distinct)
  have ok: "disk (dlg_fs dlg) = WriteOk \<longrightarrow>
      (\<exists>ms. stored_models (dlg_fs ?dlg1) = Some ms
         \<and> ms = take 30 (strip m # filter (\<lambda>x. x \<noteq> strip m) ms0)
         \<and> ms \<noteq> [] \<and> hd ms = strip m \<and> distinct ms \<and> length ms \<le> 30)"
  proof
    assume w: "disk (dlg_fs dlg) = WriteOk"
    have "stored (dlg_fs ?dlg1) (lit ''successful_models'') = Some (JArr (map JStr ?ms))"
      using a w by (simp add: save_config_ok [of "dlg_fs dlg" d] stored_after_update)
    then have st: "stored_models (dlg_fs ?dlg1) = Some ?ms"
      by (simp add: stored_models_def json_strs_map)
    from mru_shape [OF d0, of "strip m"] st
    show "\<exists>ms. stored_models (dlg_fs ?dlg1) = Some ms
         \<and> ms = take 30 (strip m # filter (\<lambda>x. x \<noteq> strip m) ms0)
         \<and> ms \<noteq> [] \<and> hd ms = strip m \<and> distinct ms \<and> length ms \<le> 30"
      by blast
  qed
  have op: "disk (dlg_fs dlg) = OpenFails \<longrightarrow> dlg_fs ?dlg1 = dlg_fs dlg"
    using a by (simp add: save_config_open_fails [of "dlg_fs dlg" d])
  have wf: "disk (dlg_fs dlg) = WriteFails \<longrightarrow>
      cfile (dlg_fs ?dlg1) = Malformed \<and> stored_models (dlg_fs ?dlg1) = None"
    using a by (simp add: save_config_write_fails [of "dlg_fs dlg" d] stored_models_malformed)
  from ms0 d0 run ok op wf
  show "\<exists>old dlg1. load_successful_models (dlg_fs dlg) = Inr old \<and> distinct old
         \<and> save_successful_model (Some m) dlg = Inr dlg1
         \<and> (disk (dlg_fs dlg) = WriteOk \<longrightarrow>
              (\<exists>ms. stored_models (dlg_fs dlg1) = Some ms
                 \<and> ms = take 30 (strip m # filter (\<lambda>x. x \<noteq> strip m) old)
                 \<and> ms \<noteq> [] \<and> hd ms = strip m \<and> distinct ms \<and> length ms \<le> 30))
         \<and> (disk (dlg_fs dlg) = OpenFails \<longrightarrow> dlg_fs dlg1 = dlg_fs dlg)
         \<and> (disk (dlg_fs dlg) = WriteFails \<longrightarrow>
              cfile (dlg_fs dlg1) = Malformed \<and> stored_models (dlg_fs dlg1) = None)"
    by blast
next
  assume "load_config (dlg_fs dlg) = Inr v \<and> \<not> is_object v \<and> strip m \<noteq> []"
  then show "save_successful_model (Some m) dlg = Inl AttributeError"
    by (simp add: save_successful_model_def load_successful_models_not_object [of _ v])
next
  assume "strip m = []"
  then show "save_successful_model (Some m) dlg = Inr dlg"
    by (simp add: save_successful_model_def)
next
  show "save_successful_model None dlg = Inr dlg"
    by (simp add: save_successful_model_def strip_def)
qed

theorem save_successful_model_mru_witness:
  "load_config (dlg_fs history_example) = Inr (JObj [(lit ''successful_models'',
          JArr [JStr (lit ''a''), JStr (lit '' b ''), JInt 3, JStr (lit ''a'')])])
   \<and> disk (dlg_fs history_example) = WriteOk \<and> strip (lit '' b'') \<noteq> []
   \<and> load_successful_models (dlg_fs history_example) = Inr [lit ''a'', lit ''b'']
   \<and> (\<exists>dlg1. save_successful_model (Some (lit '' b'')) history_example = Inr dlg1
         \<and> stored_models (dlg_fs dlg1) = Some [lit ''b'', lit ''a''])
   \<and> disk (dlg_fs failing_disk_example) = WriteFails
   \<and> stored_models (dlg_fs failing_disk_example) = Some [lit ''a'', lit ''b'']
   \<and> (\<exists>dlg1. save_successful_model (Some (lit ''c'')) failing_disk_example = Inr dlg1
         \<and> stored_models (dlg_fs dlg1) = None)"
proof -
  have hf: "load_config (dlg_fs failing_disk_example) = Inr (JObj [(lit ''successful_models'',
          JArr [JStr (lit ''a''), JStr (lit ''b'')])])
   \<and> strip (lit ''c'') \<noteq> []"
    by (simp add: failing_disk_example_def load_config_value strip_def lit_def is_space_def)
  have wf: "disk (dlg_fs failing_disk_example) = WriteFails"
    by (simp add: failing_disk_example_def)
  have sf: "stored_models (dlg_fs failing_disk_example) = Some [lit ''a'', lit ''b'']"
    by (simp add: stored_models_def stored_def failing_disk_example_def load_config_value lit_def)
  from save_successful_model_mru [of failing_disk_example _ "lit ''c''"] hf wf
  have lost: "\<exists>dlg1. save_successful_model (Some (lit ''c'')) failing_disk_example = Inr dlg1
         \<and> stored_models (dlg_fs dlg1) = None"
    by fastforce
  have h: "load_config (dlg_fs history_example) = Inr (JObj [(lit ''successful_models'',
          JArr [JStr (lit ''a''), JStr (lit '' b ''), JInt 3, JStr (lit ''a'')])])
   \<and> strip (lit '' b'') \<noteq> []"
    by (simp add: history_example_def load_config_value strip_def lit_def is_space_def)
  have w: "disk (dlg_fs history_example) = WriteOk" by (simp add: history_example_def)
  have l: "load_successful_models (dlg_fs history_example) = Inr [lit ''a'', lit ''b'']"
    by (simp add: load_successful_models_def history_example_def load_config_value json_get_def
        strip_def lit_def is_space_def)
  have s: "strip (lit '' b'') = lit ''b''" by (simp add: strip_def lit_def is_space_def)
  have t: "take 30 (lit ''b'' # filter (\<lambda>x. x \<noteq> lit ''b'') [lit ''a'', lit ''b''])
      = [lit ''b'', lit ''a'']"
    by (simp add: lit_def)
  from save_successful_model_mru [of history_example _ "lit '' b''"] h w l
  have "\<exists>dlg1. save_successful_model (Some (lit '' b'')) history_example = Inr dlg1
         \<and> stored_models (dlg_fs dlg1)
             = Some (take 30 (strip (lit '' b'') # filter (\<lambda>x. x \<noteq> strip (lit '' b''))
                 [lit ''a'', lit ''b'']))"
    by fastforce
  then show ?thesis using h w l wf sf lost unfolding s t by blast
qed

text \<open>
  The claim as it was stated fails when the configuration cannot be written: the call
  returns, and no history is stored.
\<close>

theorem save_successful_model_unwritable:
  "strip (lit ''gpt'') \<noteq> []
   \<and> save_successful_model (Some (lit ''gpt''))
       \<lparr>dlg_fs = \<lparr>cfile = Missing, disk = OpenFails\<rparr>, model_combo = None\<rparr>
     = Inr \<lparr>dlg_fs = \<lparr>cfile = Missing, disk = OpenFails\<rparr>, model_combo = None\<rparr>
   \<and> stored_models \<lparr>cfile = Missing, disk = OpenFails\<rparr> = None"
  by (simp add: save_successful_model_def load_successful_models_def load_config_value
      json_get_def save_config_cases stored_models_def stored_def update_combo_def
      strip_def lit_def is_space_def Let_def)

section \<open>Properties of \<open>recognize\<close>\<close>

lemma scale_loop_first:
  "scale_loop e path pad scales = first_nonblank (map (scaled_strategy e path pad) scales)"
proof (induction scales)
  case Nil
  then show ?case by simp
next
  case (Cons scale scales)
  show ?case
  proof (cases "save_scaled e path pad scale")
    case (Inl ex)
    then show ?thesis by (simp add: scaled_strategy_def)
  next
    case (Inr tmp)
    show ?thesis
    proof (cases "has_predict e")
      case True
      then show ?thesis using Inr Cons
        by (cases "read_text e (ocr_predict e tmp True)")
           (simp_all add: scaled_strategy_def predict_def)
    next
      case False
      then show ?thesis using Inr Cons
        by (cases "read_text e (ocr_ocr e tmp)")
           (simp_all add: scaled_strategy_def predict_def)
    qed
  qed
qed

lemma enhanced_text_spec:
  "enhanced_text e path =
     (case bindE (scaled_strategies e path) first_nonblank of
        Inl ex \<Rightarrow> [] | Inr None \<Rightarrow> [] | Inr (Some t) \<Rightarrow> t)"
proof (cases "open_image e path")
  case (Inl ex)
  then show ?thesis by (simp add: enhanced_text_def enhance_def scaled_strategies_def)
next
  case (Inr size)
  show ?thesis
  proof (cases "fst size \<le> 0 \<or> snd size \<le> 0")
    case True
    have "enhance e path = Inr (Some [])"
      unfolding enhance_def Inr using True by (simp only: bindE_Inr if_True)
    moreover have "scaled_strategies e path = Inr []"
      unfolding scaled_strategies_def Inr using True by (simp only: bindE_Inr if_True)
    ultimately show ?thesis by (simp add: enhanced_text_def)
  next
    case False
    have "enhance e path = bindE (expand_image e path (padding (fst size) (snd size))) (\<lambda>u.
           scale_loop e path (padding (fst size) (snd size))
             (scales_for (max (fst size + 2 * padding (fst size) (snd size))
                              (snd size + 2 * padding (fst size) (snd size)))))"
      unfolding enhance_def Inr using False by (simp only: bindE_Inr if_False)
    moreover have "scaled_strategies e path = bindE (expand_image e path (padding (fst size) (snd size))) (\<lambda>u.
           Inr (map (scaled_strategy e path (padding (fst size) (snd size)))
                  (scales_for (max (fst size + 2 * padding (fst size) (snd size))
                                   (snd size + 2 * padding (fst size) (snd size))))))"
      unfolding scaled_strategies_def Inr using False by (simp only: bindE_Inr if_False)
    ultimately show ?thesis
      by (cases "expand_image e path (padding (fst size) (snd size))")
         (simp_all add: scale_loop_first enhanced_text_def)
  qed
qed

lemma recognize_body_spec:
  assumes "path_exists e path"
  shows "(case recognize_body e path of Inl ex \<Rightarrow> lit ''OCR Error: '' @ exn_str ex | Inr text \<Rightarrow> text)
         = recognize_spec e path"
proof (cases "has_predict e")
  case False
  show ?thesis
  proof (cases "read_text e (ocr_ocr e path)")
    case (Inl ex)
    then show ?thesis using False assms
      by (simp add: recognize_body_def standard_text_def recognize_spec_def direct_strategies_def)
  next
    case (Inr t1)
    then show ?thesis using False assms
      by (simp add: recognize_body_def standard_text_def recognize_spec_def direct_strategies_def
          lenient_onwards_def enhanced_text_spec)
  qed
next
  case True
  show ?thesis
  proof (cases "read_text e (ocr_predict e path False)")
    case (Inl ex)
    then show ?thesis using True assms
      by (simp add: recognize_body_def standard_text_def recognize_spec_def direct_strategies_def
          predict_def)
  next
    case (Inr t1)
    show ?thesis
    proof (cases "read_text e (ocr_predict e path True)")
      case (Inl ex)
      then show ?thesis using Inr True assms
        by (simp add: recognize_body_def standard_text_def recognize_spec_def direct_strategies_def
            predict_def lenient_onwards_def)
    next
      case r: (Inr t2)
      then show ?thesis using Inr True assms
        by (simp add: recognize_body_def standard_text_def recognize_spec_def direct_strategies_def
            predict_def lenient_onwards_def enhanced_text_spec)
    qed
  qed
qed

text \<open>
  Claim C3, as amended. On an initialized engine and an existing image path,
  \<open>recognize\<close> is the retry wrapper \<open>recognize_spec\<close>: standard recognition, then
  lenient recognition (when the recognizer has \<open>predict\<close>), then recognition of the
  padded image at the scales 2 and 3; the text of the first strategy whose stripped
  result is not empty is returned, and \<open>""\<close> when there is none. No exception leaves the
  function: one raised by the standard or the lenient strategy gives a string that
  begins with \<open>"OCR Error:"\<close>, one raised in the padded-and-upscaled strategy is
  swallowed and gives \<open>""\<close>.
\<close>

theorem recognize_retry:
  assumes "initialized e" and "path_exists e path"
  shows "fst (recognize e path) = recognize_spec e path
       \<and> (\<forall>ex. first_nonblank (direct_strategies e path) = Inl ex \<longrightarrow>
              fst (recognize e path) = lit ''OCR Error: '' @ exn_str ex
              \<and> startswith (fst (recognize e path)) (lit ''OCR Error:''))"
proof -
  have eq: "fst (recognize e path) = recognize_spec e path"
    using assms recognize_body_spec [of e path]
    by (simp add: recognize_def split: sum.splits)
  have "startswith (lit ''OCR Error: '' @ m) (lit ''OCR Error:'')" for m
    by (simp add: startswith_def lit_def)
  then show ?thesis
    using eq by (simp add: recognize_spec_def)
qed

theorem recognize_retry_witness:
  "initialized lenient_engine \<and> path_exists lenient_engine (lit ''crop.png'')
   \<and> fst (recognize lenient_engine (lit ''crop.png'')) = recognize_spec lenient_engine (lit ''crop.png'')
   \<and> recognize_spec lenient_engine (lit ''crop.png'') = lit ''HI''"
proof -
  have h1: "initialized lenient_engine" by (simp add: lenient_engine_def)
  have h2: "path_exists lenient_engine (lit ''crop.png'')" by (simp add: lenient_engine_def)
  have v: "recognize_spec lenient_engine (lit ''crop.png'') = lit ''HI''"
    by (simp add: recognize_spec_def direct_strategies_def lenient_engine_def read_text_def
        extract_text_def unwrap_nested_def index_list_def item_step_def dict_item_def
        dict_item_key_def dict_value_def add_text_def str_and_nonblank_def append_stripped_def
        strip_def is_space_def lit_def)
  from recognize_retry [OF h1 h2] h1 h2 v show ?thesis by blast
qed

text \<open>
  The claim as it was stated fails when the recognizer raises on the upscaled image:
  the exception is swallowed and the result is the empty string, not an
  \<open>"OCR Error:"\<close> string.
\<close>

theorem recognize_swallows_exception:
  "initialized raising_engine \<and> path_exists raising_engine (lit ''crop.png'')
   \<and> enhance raising_engine (lit ''crop.png'') = Inl (External (lit ''boom''))
   \<and> fst (recognize raising_engine (lit ''crop.png'')) = []
   \<and> \<not> startswith (fst (recognize raising_engine (lit ''crop.png''))) (lit ''OCR Error:'')"
  by (simp add: recognize_def recognize_body_def standard_text_def lenient_onwards_def
      enhanced_text_def enhance_def predict_def read_text_def raising_engine_def
      padding_def scales_for_def extract_text_def startswith_def strip_def lit_def)

section \<open>Properties of the worker\<close>

lemma bindW_simps [simp]:
  "bindW (evs, Inl ex) f = (evs, Inl ex)"
  "bindW (evs, Inr x) f = (evs @ fst (f x), snd (f x))"
  by (simp_all add: bindW_def split: prod.splits)

lemma emit_finished_run:
  "(case bindW m (emit_finished w ocr_text) of
      (evs, Inl ex) \<Rightarrow> evs @ [Error (exn_str ex)] | (evs, Inr u) \<Rightarrow> evs)
   = (case m of
        (evs, Inl ex) \<Rightarrow> evs @ [Error (exn_str ex)]
      | (evs, Inr trans_text) \<Rightarrow> evs @ [final_signal w ocr_text trans_text])"
proof (cases m)
  case (Pair evs r)
  show ?thesis
  proof (cases r)
    case (Inl ex)
    then show ?thesis using Pair by simp
  next
    case (Inr trans_text)
    then show ?thesis using Pair
      by (cases trans_text; cases "signal_none w")
         (simp_all add: emit_finished_def final_signal_def emit_def lift_def)
  qed
qed

lemma translate_run:
  "(case bindW (translate (llm w) (files w) text (ctx w) (image_path w) use_vis)
           (emit_finished w ocr_text) of
      (evs, Inl ex) \<Rightarrow> evs @ [Error (exn_str ex)] | (evs, Inr u) \<Rightarrow> evs)
   = translate_onwards w text ocr_text use_vis"
proof (cases "client (llm w)")
  case None
  then show ?thesis
    unfolding emit_finished_run
    by (simp add: translate_def translate_onwards_def emit_def ret_def)
next
  case (Some create)
  then show ?thesis
    unfolding emit_finished_run
    by (cases "user_content (files w) text (image_path w) use_vis";
        cases "create (chat_request (llm w) (ctx w) (projr (user_content (files w) text (image_path w) use_vis)))")
       (simp_all add: translate_def translate_onwards_def emit_def ret_def lift_def reply_of_def)
qed

lemma run_prefix:
  "(case bindW (emit ev) (\<lambda>u. m) of
      (evs, Inl ex) \<Rightarrow> evs @ [Error (exn_str ex)] | (evs, Inr u) \<Rightarrow> evs)
   = ev # (case m of (evs, Inl ex) \<Rightarrow> evs @ [Error (exn_str ex)] | (evs, Inr u) \<Rightarrow> evs)"
  by (cases m; cases "snd m") (simp_all add: emit_def)

lemma run_vision:
  assumes "truthy_json (use_vision (llm w))"
  shows "run w = Status vision_status # translate_onwards w [] vision_ocr_text True"
  using assms translate_run [of w "[]" True vision_ocr_text]
  by (simp add: run_def run_body_def run_prefix)

lemma run_ocr_value:
  "run_ocr w = ([OcrCall (image_path w)], Inr (fst (recognize (ocr w) (image_path w))))"
  by (simp add: run_ocr_def emit_def ret_def)

lemma run_plain:
  assumes "\<not> truthy_json (use_vision (llm w))"
  shows "run w = Status (lit ''Running OCR...'') # OcrCall (image_path w) #
     (if startswith (fst (recognize (ocr w) (image_path w))) (lit ''OCR Error:'')
      then [Error (fst (recognize (ocr w) (image_path w)))]
      else if strip (fst (recognize (ocr w) (image_path w))) = []
      then [Error (lit ''__OCR_NO_TEXT__'')]
      else Status (lit ''Translating with LLM...'') #
           translate_onwards w (fst (recognize (ocr w) (image_path w)))
             (fst (recognize (ocr w) (image_path w))) False)"
proof -
  let ?t = "fst (recognize (ocr w) (image_path w))"
  have body: "run_body w = bindW (emit (Status (lit ''Running OCR...''))) (\<lambda>u.
     bindW (emit (OcrCall (image_path w))) (\<lambda>u.
          if startswith ?t (lit ''OCR Error:'') then emit (Error ?t)
          else if strip ?t = [] then emit (Error (lit ''__OCR_NO_TEXT__''))
          else
            bindW (emit (Status (lit ''Translating with LLM...''))) (\<lambda>u.
            bindW (translate (llm w) (files w) ?t (ctx w) (image_path w) False)
              (emit_finished w ?t))))"
    using assms by (simp add: run_body_def run_ocr_def emit_def ret_def)
  show ?thesis
  proof (cases "startswith ?t (lit ''OCR Error:'')")
    case True
    then show ?thesis unfolding run_def body run_prefix by (simp add: emit_def)
  next
    case False
    show ?thesis
    proof (cases "strip ?t = []")
      case True
      then show ?thesis using False unfolding run_def body run_prefix by (simp add: emit_def)
    next
      case ne: False
      then show ?thesis using False translate_run [of w ?t False ?t]
        unfolding run_def body run_prefix by (simp add: run_prefix)
    qed
  qed
qed

lemma final_signal_result: "is_result (final_signal w ocr_text trans_text)"
  by (cases trans_text; cases "signal_none w") (simp_all add: final_signal_def)

lemma translate_onwards_results:
  "length (filter is_result (translate_onwards w text ocr_text use_vis)) = 1"
  by (cases "client (llm w)"; cases "user_content (files w) text (image_path w) use_vis")
     (simp_all add: translate_onwards_def final_signal_result)

text \<open>
  Claim C5. Every run of the worker signals exactly one result: in the events of
  \<open>run\<close> exactly one is a \<open>finished\<close> or an \<open>error\<close> signal, whatever the engines, the
  file system and the service do, exceptions included.
\<close>

theorem run_one_result: "length (filter is_result (run w)) = 1"
proof (cases "truthy_json (use_vision (llm w))")
  case True
  then show ?thesis by (simp add: run_vision translate_onwards_results)
next
  case False
  then show ?thesis by (simp add: run_plain translate_onwards_results)
qed

lemma final_signal_calls [simp]:
  "ocr_calls [final_signal w ocr_text trans_text] = []"
  "translate_calls [final_signal w ocr_text trans_text] = []"
  "api_requests [final_signal w ocr_text trans_text] = []"
  by (cases trans_text; cases "signal_none w"; simp add: final_signal_def)+

lemma translate_onwards_ocr_calls [simp]:
  "ocr_calls (translate_onwards w text ocr_text use_vis) = []"
  by (cases "client (llm w)"; cases "user_content (files w) text (image_path w) use_vis")
     (simp_all add: translate_onwards_def)

lemma translate_onwards_calls [simp]:
  "translate_calls (translate_onwards w text ocr_text use_vis)
     = [(text, ctx w, image_path w, use_vis)]"
  by (cases "client (llm w)"; cases "user_content (files w) text (image_path w) use_vis")
     (simp_all add: translate_onwards_def)

lemma translate_onwards_requests:
  "api_requests (translate_onwards w text ocr_text use_vis)
     = (case client (llm w) of
          None \<Rightarrow> []
        | Some create \<Rightarrow>
            (case user_content (files w) text (image_path w) use_vis of
               Inl ex \<Rightarrow> []
             | Inr parts \<Rightarrow> [chat_request (llm w) (ctx w) parts]))"
  by (cases "client (llm w)"; cases "user_content (files w) text (image_path w) use_vis")
     (simp_all add: translate_onwards_def)

lemma b64encode_Nil_iff: "b64encode bs = [] \<longleftrightarrow> bs = []"
  by (cases bs rule: b64encode.cases) simp_all

lemma user_content_vision_bytes:
  "p \<noteq> [] \<Longrightarrow> fs p = Bytes bs \<Longrightarrow> bs \<noteq> [] \<Longrightarrow>
   user_content fs [] p True
     = Inr [TextPart vision_instruction, ImageUrlPart (data_url_prefix @ b64encode bs)]"
  by (simp add: user_content_def image_parts_def text_parts_def encode_image_def strip_def
      b64encode_Nil_iff)

lemma user_content_vision_no_image:
  "p \<noteq> [] \<Longrightarrow> fs p = NoFile \<or> fs p = Bytes [] \<Longrightarrow>
   user_content fs [] p True = Inr [TextPart vision_instruction]"
  by (auto simp: user_content_def image_parts_def text_parts_def encode_image_def strip_def)

lemma user_content_vision_no_access:
  "p \<noteq> [] \<Longrightarrow> fs p = NoAccess m \<Longrightarrow> user_content fs [] p True = Inl (External m)"
  by (simp add: user_content_def image_parts_def encode_image_def)

lemma user_content_vision_no_path:
  "user_content fs [] [] True = Inr [TextPart (lit ''Original Text:'' @ [10])]"
  by (simp add: user_content_def image_parts_def text_parts_def strip_def)

lemma user_content_plain:
  "strip text \<noteq> [] \<Longrightarrow>
   user_content fs text p False = Inr [TextPart (lit ''Original Text:'' @ [10] @ text)]"
  by (simp add: user_content_def image_parts_def text_parts_def)

text \<open>
  Claim C1, as amended. In a run with Vision on, the OCR engine is not called and
  \<open>translate\<close> is called once, with empty text, the path of the crop and
  \<open>use_vision=True\<close>. What is sent depends on the client and on the file under the
  path:
  \<^item> with a configured client, a path that is not empty and under it a file that can be
    opened and is not empty, the one request sent has as user message the instruction
    and the data URL of the base64 of the file, and no recognized text;
  \<^item> with no file under the path, or an empty one, the user message of the one request
    is the instruction alone;
  \<^item> with a file that \<open>open\<close> refuses, no request is sent: the exception leaves
    \<open>translate\<close> and the run ends with the error signal that carries its message;
  \<^item> with an empty path, the user message of the one request is \<open>"Original Text:\n"\<close>
    alone;
  \<^item> with no client, no request is sent.
\<close>

theorem vision_run_sends_image:
  assumes "truthy_json (use_vision (llm w))"
  shows "ocr_calls (run w) = []
       \<and> translate_calls (run w) = [([], ctx w, image_path w, True)]
       \<and> (\<forall>create bs. client (llm w) = Some create \<and> image_path w \<noteq> []
              \<and> files w (image_path w) = Bytes bs \<and> bs \<noteq> [] \<longrightarrow>
            api_requests (run w) = [chat_request (llm w) (ctx w)
              [TextPart vision_instruction, ImageUrlPart (data_url_prefix @ b64encode bs)]])
       \<and> (\<forall>create. client (llm w) = Some create \<and> image_path w \<noteq> []
              \<and> (files w (image_path w) = NoFile \<or> files w (image_path w) = Bytes []) \<longrightarrow>
            api_requests (run w) = [chat_request (llm w) (ctx w) [TextPart vision_instruction]])
       \<and> (\<forall>create m. client (llm w) = Some create \<and> image_path w \<noteq> []
              \<and> files w (image_path w) = NoAccess m \<longrightarrow>
            api_requests (run w) = []
            \<and> run w = [Status vision_status, TranslateCall [] (ctx w) (image_path w) True, Error m])
       \<and> (\<forall>create. client (llm w) = Some create \<and> image_path w = [] \<longrightarrow>
            api_requests (run w)
              = [chat_request (llm w) (ctx w) [TextPart (lit ''Original Text:'' @ [10])]])
       \<and> (client (llm w) = None \<longrightarrow> api_requests (run w) = [])"
proof (intro conjI allI impI)
  show "ocr_calls (run w) = []" using assms by (simp add: run_vision)
  show "translate_calls (run w) = [([], ctx w, image_path w, True)]"
    using assms by (simp add: run_vision)
next
  fix create bs
  assume "client (llm w) = Some create \<and> image_path w \<noteq> []
              \<and> files w (image_path w) = Bytes bs \<and> bs \<noteq> []"
  then show "api_requests (run w) = [chat_request (llm w) (ctx w)
              [TextPart vision_instruction, ImageUrlPart (data_url_prefix @ b64encode bs)]]"
    using assms
    by (simp add: run_vision translate_onwards_requests user_content_vision_bytes)
next
  fix create
  assume a: "client (llm w) = Some create \<and> image_path w \<noteq> []
              \<and> (files w (image_path w) = NoFile \<or> files w (image_path w) = Bytes [])"
  then have "user_content (files w) [] (image_path w) True = Inr [TextPart vision_instruction]"
    by (intro user_content_vision_no_image) simp_all
  then show "api_requests (run w) = [chat_request (llm w) (ctx w) [TextPart vision_instruction]]"
    using assms a by (simp add: run_vision translate_onwards_requests)
next
  fix create m
  assume a: "client (llm w) = Some create \<and> image_path w \<noteq> []
              \<and> files w (image_path w) = NoAccess m"
  then have u: "user_content (files w) [] (image_path w) True = Inl (External m)"
    by (intro user_content_vision_no_access) simp_all
  show "api_requests (run w) = []"
    using assms a u by (simp add: run_vision translate_onwards_requests)
  show "run w = [Status vision_status, TranslateCall [] (ctx w) (image_path w) True, Error m]"
    using assms a u by (simp add: run_vision translate_onwards_def)
next
  fix create
  assume a: "client (llm w) = Some create \<and> image_path w = []"
  then show "api_requests (run w)
      = [chat_request (llm w) (ctx w) [TextPart (lit ''Original Text:'' @ [10])]]"
    using assms user_content_vision_no_path [of "files w"]
    by (simp add: run_vision translate_onwards_requests)
next
  assume "client (llm w) = None"
  then show "api_requests (run w) = []"
    using assms by (simp add: run_vision translate_onwards_requests)
qed

theorem vision_run_sends_image_witness:
  "truthy_json (use_vision (llm vision_worker))
   \<and> ocr_calls (run vision_worker) = []
   \<and> translate_calls (run vision_worker) = [([], [], lit ''crop.png'', True)]
   \<and> map req_messages (api_requests (run vision_worker))
       = [[(lit ''system'', Text (system_prompt [])),
           (lit ''user'', Parts [TextPart vision_instruction,
              ImageUrlPart (lit ''data:image/jpeg;base64,TWFu'')])]]
   \<and> truthy_json (use_vision (llm locked_file_worker))
   \<and> files locked_file_worker (image_path locked_file_worker) = NoAccess (lit ''denied'')
   \<and> api_requests (run locked_file_worker) = []
   \<and> run locked_file_worker
       = [Status vision_status, TranslateCall [] [] (lit ''crop.png'') True, Error (lit ''denied'')]"
proof -
  have hl: "truthy_json (use_vision (llm locked_file_worker))"
    by (simp add: locked_file_worker_def vision_worker_def)
  have prel: "client (llm locked_file_worker) = Some (\<lambda>req. Inr (Some (lit ''ok'')))
      \<and> image_path locked_file_worker \<noteq> []
      \<and> files locked_file_worker (image_path locked_file_worker) = NoAccess (lit ''denied'')"
    by (simp add: locked_file_worker_def vision_worker_def plain_worker_def lit_def)
  have cl: "ctx locked_file_worker = []" "image_path locked_file_worker = lit ''crop.png''"
    by (simp_all add: locked_file_worker_def vision_worker_def plain_worker_def)
  from vision_run_sends_image [OF hl] prel
  have rl: "api_requests (run locked_file_worker) = []
      \<and> run locked_file_worker
          = [Status vision_status, TranslateCall [] (ctx locked_file_worker)
               (image_path locked_file_worker) True, Error (lit ''denied'')]"
    by blast
  have h: "truthy_json (use_vision (llm vision_worker))"
    by (simp add: vision_worker_def)
  have pre: "client (llm vision_worker) = Some (\<lambda>req. Inr (Some (lit ''ok'')))
      \<and> image_path vision_worker \<noteq> []
      \<and> files vision_worker (image_path vision_worker) = Bytes [77, 97, 110]
      \<and> [77, 97, 110] \<noteq> ([] :: 8 word list)"
    by (simp add: vision_worker_def plain_worker_def lit_def)
  have url: "data_url_prefix @ b64encode [77, 97, 110] = lit ''data:image/jpeg;base64,TWFu''"
    by (simp add: data_url_prefix_def b64_digit_def b64_alphabet_def lit_def)
  have c: "ctx vision_worker = []" "image_path vision_worker = lit ''crop.png''"
    by (simp_all add: vision_worker_def plain_worker_def)
  from vision_run_sends_image [OF h] pre
  have r0: "api_requests (run vision_worker) = [chat_request (llm vision_worker) (ctx vision_worker)
      [TextPart vision_instruction, ImageUrlPart (data_url_prefix @ b64encode [77, 97, 110])]]"
    by blast
  have "api_requests (run vision_worker) = [chat_request (llm vision_worker) (ctx vision_worker)
      [TextPart vision_instruction, ImageUrlPart (lit ''data:image/jpeg;base64,TWFu'')]]"
    using r0 unfolding url .
  then have "map req_messages (api_requests (run vision_worker))
       = [[(lit ''system'', Text (system_prompt [])),
           (lit ''user'', Parts [TextPart vision_instruction,
              ImageUrlPart (lit ''data:image/jpeg;base64,TWFu'')])]]"
    by (simp add: chat_request_def c)
  with vision_run_sends_image [OF h] h c hl prel rl cl show ?thesis by simp
qed

text \<open>
  The claim as it was stated fails when there is no file under the path of the crop:
  a request is sent, and its user message holds the instruction and no image.
\<close>

theorem vision_run_without_image:
  "truthy_json (use_vision (llm missing_file_worker))
   \<and> map req_messages (api_requests (run missing_file_worker))
       = [[(lit ''system'', Text (system_prompt [])),
           (lit ''user'', Parts [TextPart vision_instruction])]]"
proof -
  have h: "truthy_json (use_vision (llm missing_file_worker))"
    by (simp add: missing_file_worker_def vision_worker_def)
  have u: "user_content (files missing_file_worker) [] (image_path missing_file_worker) True
      = Inr [TextPart vision_instruction]"
    by (rule user_content_vision_no_image)
       (simp_all add: missing_file_worker_def vision_worker_def plain_worker_def lit_def)
  have c: "client (llm missing_file_worker) = Some (\<lambda>req. Inr (Some (lit ''ok'')))"
    "ctx missing_file_worker = []"
    by (simp_all add: missing_file_worker_def vision_worker_def plain_worker_def)
  show ?thesis
    using h by (simp add: run_vision [OF h] translate_onwards_requests u c chat_request_def)
qed

lemma run_plain_result:
  assumes "\<not> truthy_json (use_vision (llm w))"
  shows "run w = Status (lit ''Running OCR...'') # OcrCall (image_path w) #
     (if startswith (ocr_result w) (lit ''OCR Error:'') then [Error (ocr_result w)]
      else if strip (ocr_result w) = [] then [Error (lit ''__OCR_NO_TEXT__'')]
      else Status (lit ''Translating with LLM...'') #
           translate_onwards w (ocr_result w) (ocr_result w) False)"
  unfolding ocr_result_def by (rule run_plain [OF assms])

text \<open>
  Claim C2. In a run with Vision off the OCR engine is called first, on the crop. The
  recognized text is passed to \<open>translate\<close> if and only if it is a text and not the
  report of an error: it is not empty after stripping and does not start with
  \<open>"OCR Error:"\<close>; then the user message of a request is that text and no image. A
  result that starts with \<open>"OCR Error:"\<close> is emitted on the error signal, an empty one
  gives the error \<open>"__OCR_NO_TEXT__"\<close>, and in both cases there is no call of
  \<open>translate\<close> and no request.
\<close>

theorem plain_run_ocr_first:
  assumes "\<not> truthy_json (use_vision (llm w))"
  shows "take 2 (run w) = [Status (lit ''Running OCR...''), OcrCall (image_path w)]
       \<and> ocr_calls (run w) = [image_path w]
       \<and> translate_calls (run w) =
           (if strip (ocr_result w) \<noteq> [] \<and> \<not> startswith (ocr_result w) (lit ''OCR Error:'')
            then [(ocr_result w, ctx w, image_path w, False)] else [])
       \<and> (startswith (ocr_result w) (lit ''OCR Error:'') \<longrightarrow>
            run w = [Status (lit ''Running OCR...''), OcrCall (image_path w), Error (ocr_result w)])
       \<and> (\<not> startswith (ocr_result w) (lit ''OCR Error:'') \<and> strip (ocr_result w) = [] \<longrightarrow>
            run w = [Status (lit ''Running OCR...''), OcrCall (image_path w),
                     Error (lit ''__OCR_NO_TEXT__'')])
       \<and> (\<forall>create. strip (ocr_result w) \<noteq> [] \<and> \<not> startswith (ocr_result w) (lit ''OCR Error:'')
              \<and> client (llm w) = Some create \<longrightarrow>
            api_requests (run w) = [chat_request (llm w) (ctx w)
              [TextPart (lit ''Original Text:'' @ [10] @ ocr_result w)]])"
proof (intro conjI allI impI)
  show "take 2 (run w) = [Status (lit ''Running OCR...''), OcrCall (image_path w)]"
    by (simp add: run_plain_result [OF assms])
  show "ocr_calls (run w) = [image_path w]"
    by (simp add: run_plain_result [OF assms])
  show "translate_calls (run w) =
           (if strip (ocr_result w) \<noteq> [] \<and> \<not> startswith (ocr_result w) (lit ''OCR Error:'')
            then [(ocr_result w, ctx w, image_path w, False)] else [])"
    by (simp add: run_plain_result [OF assms])
next
  assume "startswith (ocr_result w) (lit ''OCR Error:'')"
  then show "run w = [Status (lit ''Running OCR...''), OcrCall (image_path w), Error (ocr_result w)]"
    by (simp add: run_plain_result [OF assms])
next
  assume "\<not> startswith (ocr_result w) (lit ''OCR Error:'') \<and> strip (ocr_result w) = []"
  then show "run w = [Status (lit ''Running OCR...''), OcrCall (image_path w),
                     Error (lit ''__OCR_NO_TEXT__'')]"
    by (simp add: run_plain_result [OF assms])
next
  fix create
  assume "strip (ocr_result w) \<noteq> [] \<and> \<not> startswith (ocr_result w) (lit ''OCR Error:'')
              \<and> client (llm w) = Some create"
  then show "api_requests (run w) = [chat_request (llm w) (ctx w)
              [TextPart (lit ''Original Text:'' @ [10] @ ocr_result w)]]"
    by (simp add: run_plain_result [OF assms] translate_onwards_requests user_content_plain)
qed

lemma lenient_engine_reads:
  "fst (recognize lenient_engine (lit ''crop.png'')) = lit ''HI''"
  by (simp add: recognize_def recognize_body_def standard_text_def lenient_onwards_def
      predict_def read_text_def lenient_engine_def extract_text_def unwrap_nested_def
      index_list_def item_step_def dict_item_def dict_item_key_def dict_value_def add_text_def
      str_and_nonblank_def append_stripped_def strip_def is_space_def lit_def)

lemma failing_engine_reports:
  "fst (recognize (lenient_engine\<lparr>ocr_predict := (\<lambda>path lenient. Inl (External (lit ''boom'')))\<rparr>)
         (lit ''crop.png'')) = lit ''OCR Error: boom''"
  by (simp add: recognize_def recognize_body_def standard_text_def predict_def read_text_def
      lenient_engine_def lit_def)

theorem plain_run_ocr_first_witness:
  "\<not> truthy_json (use_vision (llm plain_worker))
   \<and> ocr_result plain_worker = lit ''HI''
   \<and> take 2 (run plain_worker) = [Status (lit ''Running OCR...''), OcrCall (lit ''crop.png'')]
   \<and> translate_calls (run plain_worker) = [(lit ''HI'', [], lit ''crop.png'', False)]
   \<and> map req_messages (api_requests (run plain_worker))
       = [[(lit ''system'', Text (system_prompt [])),
           (lit ''user'', Parts [TextPart (lit ''Original Text:'' @ [10] @ lit ''HI'')])]]"
proof -
  have h: "\<not> truthy_json (use_vision (llm plain_worker))"
    by (simp add: plain_worker_def)
  have t: "ocr_result plain_worker = lit ''HI''"
    by (simp add: ocr_result_def plain_worker_def lenient_engine_reads)
  have c: "ctx plain_worker = []" "image_path plain_worker = lit ''crop.png''"
    "client (llm plain_worker) = Some (\<lambda>req. Inr (Some (lit ''ok'')))"
    by (simp_all add: plain_worker_def)
  have ne: "strip (lit ''HI'') \<noteq> [] \<and> \<not> startswith (lit ''HI'') (lit ''OCR Error:'')"
    by (simp add: strip_def is_space_def startswith_def lit_def)
  note r = plain_run_ocr_first [OF h, unfolded t c]
  from r ne c have "api_requests (run plain_worker) = [chat_request (llm plain_worker) []
              [TextPart (lit ''Original Text:'' @ [10] @ lit ''HI'')]]"
    by blast
  then have "map req_messages (api_requests (run plain_worker))
       = [[(lit ''system'', Text (system_prompt [])),
           (lit ''user'', Parts [TextPart (lit ''Original Text:'' @ [10] @ lit ''HI'')])]]"
    by (simp add: chat_request_def)
  with r ne h t show ?thesis by simp
qed

text \<open>
  A run whose recognizer raises: the report of the error goes out on the error signal,
  and \<open>translate\<close> is not called.
\<close>

lemma failing_worker_run:
  "\<not> truthy_json (use_vision (llm failing_worker))
   \<and> ocr_result failing_worker = lit ''OCR Error: boom''
   \<and> strip (ocr_result failing_worker) \<noteq> []
   \<and> run failing_worker
       = [Status (lit ''Running OCR...''), OcrCall (lit ''crop.png''), Error (lit ''OCR Error: boom'')]
   \<and> translate_calls (run failing_worker) = []"
proof -
  have h: "\<not> truthy_json (use_vision (llm failing_worker))"
    by (simp add: failing_worker_def plain_worker_def)
  have t: "ocr_result failing_worker = lit ''OCR Error: boom''"
    by (simp add: ocr_result_def failing_worker_def plain_worker_def failing_engine_reports)
  have p: "image_path failing_worker = lit ''crop.png''"
    by (simp add: failing_worker_def plain_worker_def)
  have s: "startswith (lit ''OCR Error: boom'') (lit ''OCR Error:'')"
    "strip (lit ''OCR Error: boom'') \<noteq> []"
    by (simp_all add: startswith_def strip_def is_space_def lit_def)
  show ?thesis
    using h s by (simp add: run_plain_result [OF h] t p)
qed

section \<open>Properties of the result handler\<close>

lemma py_replace_absent:
  "old \<noteq> [] \<Longrightarrow> hd old \<notin> set s \<Longrightarrow> py_replace old new s = s"
proof (induction s)
  case Nil
  then show ?case by (simp add: py_replace.simps)
next
  case (Cons c cs)
  have "take (length old) (c # cs) \<noteq> old"
  proof
    assume "take (length old) (c # cs) = old"
    then have "hd old = c" using Cons.prems(1) by (cases old) auto
    then show False using Cons.prems(2) by simp
  qed
  then show ?case using Cons by (simp add: py_replace.simps [of old new "c # cs"])
qed

lemma py_replace_Nil: "old \<noteq> [] \<Longrightarrow> py_replace old new [] = []"
  by (simp add: py_replace.simps)

lemma py_replace_other:
  "old \<noteq> [] \<Longrightarrow> c \<noteq> hd old \<Longrightarrow> py_replace old new (c # cs) = c # py_replace old new cs"
proof -
  assume o: "old \<noteq> []" and c: "c \<noteq> hd old"
  have "take (length old) (c # cs) \<noteq> old"
  proof
    assume "take (length old) (c # cs) = old"
    then have "hd old = c" using o by (cases old) auto
    then show False using c by simp
  qed
  then show ?thesis using o by (simp add: py_replace.simps [of old new "c # cs"])
qed

lemma py_replace_set: "old \<noteq> [] \<Longrightarrow> set (py_replace old new s) \<subseteq> set s \<union> set new"
proof (induction old new s rule: py_replace.induct)
  case (1 old new s)
  show ?case
  proof (cases "s = []")
    case True
    then show ?thesis using "1.prems" by (simp add: py_replace.simps)
  next
    case ne: False
    show ?thesis
    proof (cases "take (length old) s = old")
      case True
      have "set (py_replace old new (drop (length old) s)) \<subseteq> set (drop (length old) s) \<union> set new"
        using "1.IH"(1) [OF "1.prems" ne True] "1.prems" by simp
      moreover have "set (drop (length old) s) \<subseteq> set s" by (rule set_drop_subset)
      ultimately show ?thesis
        using ne True "1.prems" by (subst py_replace.simps) auto
    next
      case False
      have "set (py_replace old new (tl s)) \<subseteq> set (tl s) \<union> set new"
        using "1.IH"(2) [OF "1.prems" ne False] "1.prems" by simp
      moreover have "set s = insert (hd s) (set (tl s))" using ne by (cases s) auto
      ultimately show ?thesis
        using ne False "1.prems" by (subst py_replace.simps) auto
    qed
  qed
qed

lemma py_replace_notin:
  "old \<noteq> [] \<Longrightarrow> c \<notin> set s \<Longrightarrow> c \<notin> set new \<Longrightarrow> c \<notin> set (py_replace old new s)"
  using py_replace_set [of old new s] by auto

lemma py_replace_char:
  "py_replace [c] new (x # xs) = (if x = c then new @ py_replace [c] new xs else x # py_replace [c] new xs)"
  by (simp add: py_replace.simps [of "[c]" new "x # xs"])

lemma py_replace_char_gone: "c \<notin> set new \<Longrightarrow> c \<notin> set (py_replace [c] new s)"
  by (induction s) (simp_all add: py_replace_Nil py_replace_char)

lemma py_replace_pair:
  "py_replace [a, b] new (x # y # zs) =
     (if x = a \<and> y = b then new @ py_replace [a, b] new zs
      else x # py_replace [a, b] new (y # zs))"
  by (simp add: py_replace.simps [of "[a, b]" new "x # y # zs"])

lemma py_replace_pair_single: "py_replace [a, b] new [x] = [x]"
  by (simp add: py_replace.simps [of "[a, b]" new "[x]"] py_replace_Nil)

subsection \<open>Lines\<close>

lemma split_nl_single: "10 \<notin> set s \<Longrightarrow> split_nl s = [s]"
  by (induction s) auto

lemma split_nl_ne [simp]: "split_nl s \<noteq> []"
  by (induction s) (auto split: list.splits)

lemma split_nl_chars: "l \<in> set (split_nl s) \<Longrightarrow> set l \<subseteq> set s"
proof (induction s arbitrary: l)
  case Nil then show ?case by simp
next
  case (Cons c cs)
  show ?case
  proof (cases "c = 10")
    case True then show ?thesis using Cons by auto
  next
    case False
    obtain m ms where sp: "split_nl cs = m # ms" by (cases "split_nl cs") simp_all
    then have "l = c # m \<or> l \<in> set ms" using Cons.prems False by simp
    then show ?thesis using Cons.IH [of m] Cons.IH [of l] sp by auto
  qed
qed

lemma split_nl_no_newline: "l \<in> set (split_nl s) \<Longrightarrow> 10 \<notin> set l"
proof (induction s arbitrary: l)
  case Nil then show ?case by simp
next
  case (Cons c cs)
  show ?case
  proof (cases "c = 10")
    case True then show ?thesis using Cons by auto
  next
    case False
    obtain m ms where sp: "split_nl cs = m # ms" by (cases "split_nl cs") simp_all
    then have "l = c # m \<or> l \<in> set ms" using Cons.prems False by simp
    then show ?thesis using Cons.IH [of m] Cons.IH [of l] sp False by auto
  qed
qed

lemma join_nl_Cons: "ls \<noteq> [] \<Longrightarrow> join_nl (l # ls) = l @ 10 # join_nl ls"
  by (cases ls) simp_all

lemma split_nl_append:
  "10 \<notin> set l \<Longrightarrow> split_nl (l @ 10 # r) = l # split_nl r"
  by (induction l) auto

lemma split_join:
  "ls \<noteq> [] \<Longrightarrow> (\<And>l. l \<in> set ls \<Longrightarrow> 10 \<notin> set l) \<Longrightarrow> split_nl (join_nl ls) = ls"
proof (induction ls)
  case Nil then show ?case by simp
next
  case (Cons l ls)
  show ?case
  proof (cases "ls = []")
    case True
    then show ?thesis using Cons.prems by (simp add: split_nl_single)
  next
    case False
    then show ?thesis using Cons by (simp add: join_nl_Cons split_nl_append)
  qed
qed

lemma join_nl_chars: "set (join_nl ls) \<subseteq> insert 10 (\<Union> (set ` set ls))"
proof (induction ls)
  case Nil then show ?case by simp
next
  case (Cons l ls)
  then show ?case by (cases "ls = []") (auto simp: join_nl_Cons)
qed

subsection \<open>The inserted empty lines\<close>

lemma enhance_lines_head: "\<exists>r. enhance_lines (l # ls) = l # r"
  by (cases ls) simp_all

lemma enhance_lines_ne: "ls \<noteq> [] \<Longrightarrow> enhance_lines ls \<noteq> []"
  using enhance_lines_head [of "hd ls" "tl ls"] by (cases ls) auto

lemma strip_Nil: "strip [] = []"
  by (simp add: strip_def)

lemma enhance_lines_set: "set (enhance_lines ls) \<subseteq> insert [] (set ls)"
  by (induction ls rule: enhance_lines.induct) (auto simp: strip_Nil)

lemma enhance_lines_text: "filter (\<lambda>l. l \<noteq> []) (enhance_lines ls) = filter (\<lambda>l. l \<noteq> []) ls"
  by (induction ls rule: enhance_lines.induct) (auto simp: strip_Nil)

lemma is_quote_only_strip: "is_quote_only (strip s) = is_quote_only s"
  by (simp add: is_quote_only_def strip_strip)

lemma enhance_lines_spaced: "spaced (enhance_lines ls)"
proof (induction ls rule: enhance_lines.induct)
  case (3 line nxt rest)
  obtain r where r: "enhance_lines (nxt # rest) = nxt # r"
    using enhance_lines_head by blast
  show ?case
    using 3 r by (auto simp: is_quote_only_strip strip_Nil)
qed simp_all

subsection \<open>Escaped line ends\<close>

lemma no_escaped_newline_Cons:
  "no_escaped_newline (a # s) = ((s = [] \<or> \<not> (a = 92 \<and> hd s = 110)) \<and> no_escaped_newline s)"
  by (cases s) auto

lemma py_replace_pair_head:
  "py_replace [a, b] [n] s = [] \<or> hd (py_replace [a, b] [n] s) = n
   \<or> hd (py_replace [a, b] [n] s) = hd s"
proof (cases s)
  case Nil then show ?thesis by (simp add: py_replace_Nil)
next
  case (Cons x xs)
  then show ?thesis by (cases xs) (simp_all add: py_replace_pair py_replace_pair_single)
qed

lemma no_escaped_newline_replace: "no_escaped_newline (py_replace [92, 110] [10] s)"
proof (induction s rule: no_escaped_newline.induct)
  case (1 a b cs)
  show ?case
  proof (cases "a = 92 \<and> b = 110")
    case True
    have "no_escaped_newline (py_replace [92, 110] [10] (b # cs))" using 1 by simp
    moreover have "py_replace [92, 110] [10] (b # cs) = b # py_replace [92, 110] [10] cs"
      using True by (simp add: py_replace_other)
    ultimately have "no_escaped_newline (py_replace [92, 110] [10] cs)"
      by (simp add: no_escaped_newline_Cons)
    then show ?thesis using True by (simp add: py_replace_pair no_escaped_newline_Cons)
  next
    case False
    have ih: "no_escaped_newline (py_replace [92, 110] [10] (b # cs))" using 1 by simp
    have "py_replace [92, 110] [10] (b # cs) = []
       \<or> hd (py_replace [92, 110] [10] (b # cs)) = 10
       \<or> hd (py_replace [92, 110] [10] (b # cs)) = b"
      using py_replace_pair_head [of 92 110 10 "b # cs"] by simp
    then show ?thesis using False ih
      by (auto simp: py_replace_pair no_escaped_newline_Cons)
  qed
qed (simp_all add: py_replace_Nil py_replace_pair_single)

lemma no_escaped_newline_tl: "no_escaped_newline s \<Longrightarrow> no_escaped_newline (tl s)"
  by (cases s) (simp_all add: no_escaped_newline_Cons)

lemma no_escaped_newline_butlast: "no_escaped_newline s \<Longrightarrow> no_escaped_newline (butlast s)"
  by (induction s rule: no_escaped_newline.induct) auto

lemma no_escaped_newline_append:
  "no_escaped_newline (l @ 10 # r) = (no_escaped_newline l \<and> no_escaped_newline r)"
proof (induction l)
  case Nil
  then show ?case by (simp add: no_escaped_newline_Cons)
next
  case (Cons a l)
  then show ?case by (cases l) (simp_all add: no_escaped_newline_Cons)
qed

lemma no_escaped_newline_join:
  "no_escaped_newline (join_nl ls) = (\<forall>l \<in> set ls. no_escaped_newline l)"
proof (induction ls)
  case Nil then show ?case by simp
next
  case (Cons l ls)
  then show ?case by (cases "ls = []") (simp_all add: join_nl_Cons no_escaped_newline_append)
qed

lemma join_split: "join_nl (split_nl s) = s"
proof (induction s)
  case Nil then show ?case by simp
next
  case (Cons c cs)
  obtain m ms where sp: "split_nl cs = m # ms" by (cases "split_nl cs") simp_all
  show ?case
  proof (cases "c = 10")
    case True
    then show ?thesis using Cons by (simp add: join_nl_Cons)
  next
    case False
    then show ?thesis using Cons sp by (cases ms) simp_all
  qed
qed

subsection \<open>The unified line ends\<close>

lemma unify_newlines_no_cr: "13 \<notin> set (unify_newlines t)"
proof -
  let ?n2 = "py_replace [13] [10] (py_replace [13, 10] [10] t)"
  have a: "13 \<notin> set ?n2" by (rule py_replace_char_gone) simp
  have b: "13 \<notin> set (py_replace [92, 114, 92, 110] [10] ?n2)"
    by (rule py_replace_notin [OF _ a]) simp_all
  have "13 \<notin> set (py_replace [92, 110] [10] (py_replace [92, 114, 92, 110] [10] ?n2))"
    by (rule py_replace_notin [OF _ b]) simp_all
  then show ?thesis by (simp add: unify_newlines_def)
qed

lemma unify_newlines_no_escape: "no_escaped_newline (unify_newlines t)"
  by (simp add: unify_newlines_def no_escaped_newline_replace)

lemma unify_newlines_plain:
  "10 \<notin> set t \<Longrightarrow> 13 \<notin> set t \<Longrightarrow> 92 \<notin> set t \<Longrightarrow> unify_newlines t = t"
  by (simp add: unify_newlines_def py_replace_absent)

lemma unify_newlines_no_backslash:
  assumes "92 \<notin> set t"
  shows "unify_newlines t = py_replace [13] [10] (py_replace [13, 10] [10] t)"
proof -
  let ?n1 = "py_replace [13, 10] [10] t"
  let ?n2 = "py_replace [13] [10] ?n1"
  have a: "92 \<notin> set ?n1" by (rule py_replace_notin [OF _ assms]) simp_all
  have "92 \<notin> set ?n2" by (rule py_replace_notin [OF _ a]) simp_all
  then show ?thesis by (simp add: unify_newlines_def py_replace_absent)
qed

text \<open>
  The four replacements, step by step. \<open>unify_cr\<close> stands for the first two, which turn
  CR LF and CR into LF.
\<close>

lemma py_replace_match:
  "old \<noteq> [] \<Longrightarrow> py_replace old new (old @ r) = new @ py_replace old new r"
  by (subst py_replace.simps) auto

lemma py_replace_nomatch:
  "old \<noteq> [] \<Longrightarrow> take (length old) (c # cs) \<noteq> old \<Longrightarrow>
   py_replace old new (c # cs) = c # py_replace old new cs"
  by (subst py_replace.simps) auto

lemma py_replace_nomatch_n:
  "old \<noteq> [] \<Longrightarrow> length old = n \<Longrightarrow> take n (c # cs) \<noteq> old \<Longrightarrow>
   py_replace old new (c # cs) = c # py_replace old new cs"
  using py_replace_nomatch [of old c cs new] by simp

lemma py_replace_head:
  "old \<noteq> [] \<Longrightarrow>
   py_replace old [n] s = [] \<or> hd (py_replace old [n] s) = n \<or> hd (py_replace old [n] s) = hd s"
  by (subst (1 2 3) py_replace.simps) auto

lemma unify_steps:
  "unify_newlines s =
     py_replace [92, 110] [10] (py_replace [92, 114, 92, 110] [10]
       (py_replace [13] [10] (py_replace [13, 10] [10] s)))"
  by (simp add: unify_newlines_def)

lemma crlf_step:
  "\<not> (c = 13 \<and> take 1 r = [10]) \<Longrightarrow>
   py_replace [13, 10] [10] (c # r) = c # py_replace [13, 10] [10] r"
  by (cases r) (auto simp: py_replace_pair py_replace_pair_single py_replace_Nil)

lemma cr_head:
  assumes "py_replace [13] [10] (py_replace [13, 10] [10] r) = a # rest" and "a \<noteq> 10"
  shows "\<exists>xs. r = a # xs \<and> rest = py_replace [13] [10] (py_replace [13, 10] [10] xs)"
proof (cases r)
  case Nil
  then show ?thesis using assms by (simp add: py_replace_Nil)
next
  case (Cons x xs)
  show ?thesis
  proof (cases "x = 13")
    case True
    show ?thesis
    proof (cases xs)
      case Nil
      then show ?thesis using assms Cons True
        by (simp add: py_replace_pair_single py_replace_char)
    next
      case (Cons y ys)
      then show ?thesis using assms \<open>r = x # xs\<close> True
        by (simp add: py_replace_pair py_replace_char split: if_splits)
    qed
  next
    case False
    then have "py_replace [13, 10] [10] (x # xs) = x # py_replace [13, 10] [10] xs"
      by (simp add: py_replace_other)
    then show ?thesis using assms Cons False by (simp add: py_replace_char)
  qed
qed

lemma cr_prefix:
  assumes "take 3 (py_replace [13] [10] (py_replace [13, 10] [10] r)) = [114, 92, 110]"
  shows "take 3 r = [114, 92, 110]"
proof -
  let ?R = "\<lambda>s. py_replace [13] [10] (py_replace [13, 10] [10] s)"
  from assms obtain r1 where 1: "?R r = 114 # r1" and t1: "take 2 r1 = [92, 110]"
    by (cases "?R r") simp_all
  from cr_head [OF 1] obtain xs where xs: "r = 114 # xs" "r1 = ?R xs" by auto
  from t1 xs obtain r2 where 2: "?R xs = 92 # r2" and t2: "take 1 r2 = [110]"
    by (cases "?R xs") simp_all
  from cr_head [OF 2] obtain ys where ys: "xs = 92 # ys" "r2 = ?R ys" by auto
  from t2 ys obtain r3 where 3: "?R ys = 110 # r3"
    by (cases "?R ys") simp_all
  from cr_head [OF 3] obtain zs where "ys = 110 # zs" by auto
  then show ?thesis using xs ys by simp
qed

lemma text_lines_ne [simp]: "text_lines s \<noteq> []"
  by (subst text_lines.simps) (auto split: list.splits)

text \<open>The lines of the unified text are the lines of the text.\<close>

lemma split_nl_unify: "split_nl (unify_newlines s) = text_lines s"
proof (induction s rule: text_lines.induct)
  case (1 s)
  let ?R = "\<lambda>s. py_replace [13] [10] (py_replace [13, 10] [10] s)"
  show ?case
  proof (cases "s = []")
    case True
    then show ?thesis by (simp add: unify_steps py_replace_Nil text_lines.simps)
  next
    case ne: False
    show ?thesis
    proof (cases "take 2 s = [13, 10]")
      case True
      then have s: "s = [13, 10] @ drop 2 s" by (metis append_take_drop_id)
      have le: "line_end s = 2" using True by (simp add: line_end_def)
      have ih: "split_nl (unify_newlines (drop 2 s)) = text_lines (drop 2 s)"
        using "1.IH"(1) [OF ne] le by simp
      have "unify_newlines s = 10 # unify_newlines (drop 2 s)"
        by (subst s) (simp add: unify_steps py_replace_pair py_replace_char py_replace_other)
      then show ?thesis using ih le ne by (simp add: text_lines.simps [of s])
    next
      case n1: False
      show ?thesis
      proof (cases "hd s = 13 \<or> hd s = 10")
        case True
        obtain c r where s: "s = c # r" using ne by (cases s) auto
        have c: "c = 13 \<or> c = 10" using True s by simp
        have nm: "\<not> (c = 13 \<and> take 1 r = [10])" using n1 s by (cases r) auto
        have le: "line_end s = 1" using c n1 s by (auto simp: line_end_def)
        have d: "drop (line_end s) s = r" using le s by simp
        have ih: "split_nl (unify_newlines r) = text_lines r"
          using "1.IH"(1) [OF ne] le d by simp
        have "py_replace [13, 10] [10] (c # r) = c # py_replace [13, 10] [10] r"
          using nm by (rule crlf_step)
        then have "unify_newlines (c # r) = 10 # unify_newlines r"
          using c by (auto simp: unify_steps py_replace_char py_replace_other)
        then show ?thesis using ih le d s by (simp add: text_lines.simps [of "c # r"])
      next
        case n2: False
        show ?thesis
        proof (cases "take 4 s = [92, 114, 92, 110]")
          case True
          then have s: "s = [92, 114, 92, 110] @ drop 4 s" by (metis append_take_drop_id)
          have le: "line_end s = 4" using True n1 n2 by (subst s) (simp add: line_end_def)
          have ih: "split_nl (unify_newlines (drop 4 s)) = text_lines (drop 4 s)"
            using "1.IH"(1) [OF ne] le by simp
          have "?R ([92, 114, 92, 110] @ drop 4 s) = [92, 114, 92, 110] @ ?R (drop 4 s)"
            by (simp add: py_replace_other py_replace_char)
          then have "unify_newlines ([92, 114, 92, 110] @ drop 4 s) = 10 # unify_newlines (drop 4 s)"
            unfolding unify_steps
            using py_replace_match [of "[92, 114, 92, 110]" "[10]" "?R (drop 4 s)"]
            by (simp add: py_replace_other)
          then have "unify_newlines s = 10 # unify_newlines (drop 4 s)" using s by simp
          then show ?thesis using ih le ne by (simp add: text_lines.simps [of s])
        next
          case n3: False
          show ?thesis
          proof (cases "take 2 s = [92, 110]")
            case True
            then have s: "s = [92, 110] @ drop 2 s" by (metis append_take_drop_id)
            have le: "line_end s = 2" using True n1 n2 n3 by (subst s) (simp add: line_end_def)
            have ih: "split_nl (unify_newlines (drop 2 s)) = text_lines (drop 2 s)"
              using "1.IH"(1) [OF ne] le by simp
            have "?R ([92, 110] @ drop 2 s) = [92, 110] @ ?R (drop 2 s)"
              by (simp add: py_replace_other py_replace_char)
            moreover have "py_replace [92, 114, 92, 110] [10] (92 # 110 # ?R (drop 2 s))
                = 92 # 110 # py_replace [92, 114, 92, 110] [10] (?R (drop 2 s))"
              by (simp add: py_replace_nomatch py_replace_other)
            ultimately have "unify_newlines ([92, 110] @ drop 2 s) = 10 # unify_newlines (drop 2 s)"
              unfolding unify_steps by (simp add: py_replace_pair)
            then have "unify_newlines s = 10 # unify_newlines (drop 2 s)" using s by simp
            then show ?thesis using ih le ne by (simp add: text_lines.simps [of s])
          next
            case n4: False
            obtain c r where s: "s = c # r" using ne by (cases s) auto
            have c: "c \<noteq> 13" "c \<noteq> 10" using n2 s by auto
            have le: "line_end s = 0" using n1 n2 n3 n4 s by (auto simp: line_end_def)
            have ih: "split_nl (unify_newlines r) = text_lines r"
              using "1.IH"(2) [OF ne] le s by simp
            have r12: "?R (c # r) = c # ?R r" using c by (simp add: py_replace_other py_replace_char)
            have nm4: "take 4 (c # ?R r) \<noteq> [92, 114, 92, 110]"
            proof
              assume a: "take 4 (c # ?R r) = [92, 114, 92, 110]"
              then have "c = 92" and "take 3 (?R r) = [114, 92, 110]" by simp_all
              then have "take 3 r = [114, 92, 110]" using cr_prefix by blast
              then show False using n3 s \<open>c = 92\<close> by simp
            qed
            have r3: "py_replace [92, 114, 92, 110] [10] (c # ?R r)
                = c # py_replace [92, 114, 92, 110] [10] (?R r)"
              by (rule py_replace_nomatch_n [where n = 4, OF _ _ nm4]) simp_all
            let ?Y = "py_replace [92, 114, 92, 110] [10] (?R r)"
            have nm2: "take 2 (c # ?Y) \<noteq> [92, 110]"
            proof
              assume a: "take 2 (c # ?Y) = [92, 110]"
              then have c92: "c = 92" and y: "?Y \<noteq> []" "hd ?Y = 110" by (cases ?Y; simp)+
              have "?Y = [] \<or> hd ?Y = 10 \<or> hd ?Y = hd (?R r)"
                by (rule py_replace_head) simp
              then have h: "hd (?R r) = 110" using y by auto
              have "?R r \<noteq> []" using y by (auto simp: py_replace_Nil)
              then obtain rest where "?R r = 110 # rest" using h by (cases "?R r") auto
              from cr_head [OF this] obtain xs where "r = 110 # xs" by auto
              then show False using n4 s c92 by simp
            qed
            have r4: "py_replace [92, 110] [10] (c # ?Y) = c # py_replace [92, 110] [10] ?Y"
              by (rule py_replace_nomatch_n [where n = 2, OF _ _ nm2]) simp_all
            have "unify_newlines s = c # unify_newlines r"
              unfolding unify_steps s r12 r3 r4 ..
            then show ?thesis using ih le s c
              by (simp add: text_lines.simps [of "c # r"] split: list.splits)
          qed
        qed
      qed
    qed
  qed
qed

subsection \<open>The shown text\<close>

lemma unquote_chars: "set (unquote s) \<subseteq> set s"
proof (cases "quote_wrapped s")
  case False then show ?thesis by (simp add: unquote_def)
next
  case True
  have "set (butlast (tl s)) \<subseteq> set (tl s)" by (auto dest: in_set_butlastD)
  moreover have "set (tl s) \<subseteq> set s" by (cases s) auto
  ultimately show ?thesis using True by (auto simp: unquote_def)
qed

lemma unquote_no_escape: "no_escaped_newline s \<Longrightarrow> no_escaped_newline (unquote s)"
  by (simp add: unquote_def no_escaped_newline_tl no_escaped_newline_butlast)

text \<open>The text shown for \<open>n4\<close>, the translation with unified line ends and without quotes.\<close>

lemma normalize_translation_cases:
  "normalize_translation t =
     (if 1 < length (split_nl (unquote (unify_newlines t)))
      then join_nl (enhance_lines (split_nl (unquote (unify_newlines t))))
      else unquote (unify_newlines t))"
  by (simp add: normalize_translation_def Let_def)

lemma shown_lines:
  "split_nl (join_nl (enhance_lines (split_nl s))) = enhance_lines (split_nl s)"
proof (rule split_join)
  show "enhance_lines (split_nl s) \<noteq> []" by (simp add: enhance_lines_ne)
next
  fix l assume "l \<in> set (enhance_lines (split_nl s))"
  then have "l = [] \<or> l \<in> set (split_nl s)" using enhance_lines_set [of "split_nl s"] by auto
  then show "10 \<notin> set l" using split_nl_no_newline by auto
qed

lemma single_line_spaced: "\<not> 1 < length ls \<Longrightarrow> spaced ls"
  by (cases ls rule: spaced.cases) simp_all

lemma normalize_no_cr: "13 \<notin> set (normalize_translation t)"
proof -
  let ?n4 = "unquote (unify_newlines t)"
  have n4: "13 \<notin> set ?n4" using unquote_chars [of "unify_newlines t"] unify_newlines_no_cr by auto
  have "13 \<notin> set (join_nl (enhance_lines (split_nl ?n4)))"
  proof
    assume "13 \<in> set (join_nl (enhance_lines (split_nl ?n4)))"
    then obtain l where "l \<in> set (enhance_lines (split_nl ?n4))" "13 \<in> set l"
      using join_nl_chars [of "enhance_lines (split_nl ?n4)"] by auto
    then have "l \<in> set (split_nl ?n4)" using enhance_lines_set [of "split_nl ?n4"] by auto
    then show False using split_nl_chars [of l ?n4] n4 \<open>13 \<in> set l\<close> by auto
  qed
  then show ?thesis using n4 by (simp add: normalize_translation_cases)
qed

lemma normalize_no_escape: "no_escaped_newline (normalize_translation t)"
proof -
  let ?n4 = "unquote (unify_newlines t)"
  have n4: "no_escaped_newline ?n4" by (simp add: unquote_no_escape unify_newlines_no_escape)
  then have "\<forall>l \<in> set (split_nl ?n4). no_escaped_newline l"
    using no_escaped_newline_join [of "split_nl ?n4"] by (simp add: join_split)
  then have "\<forall>l \<in> set (enhance_lines (split_nl ?n4)). no_escaped_newline l"
    using enhance_lines_set [of "split_nl ?n4"] by auto
  then have "no_escaped_newline (join_nl (enhance_lines (split_nl ?n4)))"
    by (simp add: no_escaped_newline_join)
  then show ?thesis using n4 by (simp add: normalize_translation_cases)
qed

lemma normalize_spaced: "spaced (split_nl (normalize_translation t))"
  by (simp add: normalize_translation_cases shown_lines enhance_lines_spaced single_line_spaced)

lemma normalize_text_lines:
  "filter (\<lambda>l. l \<noteq> []) (split_nl (normalize_translation t))
     = filter (\<lambda>l. l \<noteq> []) (split_nl (unquote (unify_newlines t)))"
  by (simp add: normalize_translation_cases shown_lines enhance_lines_text)

lemma normalize_plain:
  assumes "10 \<notin> set t" and "13 \<notin> set t" and "92 \<notin> set t" and "\<not> quote_wrapped t"
  shows "normalize_translation t = t"
  using assms
  by (simp add: normalize_translation_cases unify_newlines_plain unquote_def split_nl_single)

lemma normalize_quoted:
  assumes "10 \<notin> set t" and "13 \<notin> set t" and "92 \<notin> set t" and "quote_wrapped t"
  shows "normalize_translation t = butlast (tl t)"
proof -
  have "set (butlast (tl t)) \<subseteq> set t" using unquote_chars [of t] assms(4) by (simp add: unquote_def)
  then have "10 \<notin> set (butlast (tl t))" using assms(1) by auto
  then show ?thesis using assms
    by (simp add: normalize_translation_cases unify_newlines_plain unquote_def split_nl_single)
qed

lemma normalize_lines:
  assumes "\<not> quote_wrapped (unify_newlines t)"
  shows "filter (\<lambda>l. l \<noteq> []) (split_nl (normalize_translation t))
     = filter (\<lambda>l. l \<noteq> []) (text_lines t)"
  using assms by (simp add: normalize_text_lines unquote_def split_nl_unify)

text \<open>
  Claim C7, as amended. For a pair of strings delivered by the finished signal the
  handler raises nothing, sets the OCR pane to \<open>ocr_text\<close> and sets the translation
  pane to a normalized \<open>trans_text\<close>:
  \<^item> no carriage return is left in the pane, and no backslash followed by \<open>n\<close>;
  \<^item> of two adjacent lines of the pane one is blank or made of quote characters only:
    an empty line stands between two lines of text;
  \<^item> the lines of the pane that are not empty are, in their order, those of the text
    with unified line ends and without its wrapping quotes;
  \<^item> the lines of the text with unified line ends are the lines of \<open>trans_text\<close> where
    CR LF, CR, LF, backslash-r-backslash-n and backslash-n each end a line; when that
    text is not wrapped in quotes, the lines of the pane that are not empty are those
    of \<open>trans_text\<close>;
  \<^item> a \<open>trans_text\<close> of one line that is wrapped in a pair of equal ASCII quotes is shown
    without them;
  \<^item> a \<open>trans_text\<close> without line feed, carriage return and backslash that is not
    wrapped in quotes is shown as it is.
\<close>

theorem finished_fills_panes:
  "ocr_text_edit (fst (on_translation_finished repr ocr_text (PStr t) win)) = ocr_text
   \<and> snd (on_translation_finished repr ocr_text (PStr t) win) = None
   \<and> (let shown = trans_text_edit (fst (on_translation_finished repr ocr_text (PStr t) win))
      in 13 \<notin> set shown
       \<and> no_escaped_newline shown
       \<and> spaced (split_nl shown)
       \<and> filter (\<lambda>l. l \<noteq> []) (split_nl shown)
           = filter (\<lambda>l. l \<noteq> []) (split_nl (unquote (unify_newlines t)))
       \<and> split_nl (unify_newlines t) = text_lines t
       \<and> (\<not> quote_wrapped (unify_newlines t) \<longrightarrow>
            filter (\<lambda>l. l \<noteq> []) (split_nl shown) = filter (\<lambda>l. l \<noteq> []) (text_lines t))
       \<and> (10 \<notin> set t \<and> 13 \<notin> set t \<and> 92 \<notin> set t \<and> quote_wrapped t \<longrightarrow>
            shown = butlast (tl t))
       \<and> (10 \<notin> set t \<and> 13 \<notin> set t \<and> 92 \<notin> set t \<and> \<not> quote_wrapped t \<longrightarrow>
            shown = t))"
proof -
  have s: "trans_text_edit (fst (on_translation_finished repr ocr_text (PStr t) win))
      = normalize_translation t"
    by (simp add: on_translation_finished_def show_translation_def)
  have a: "ocr_text_edit (fst (on_translation_finished repr ocr_text (PStr t) win)) = ocr_text"
    by (simp add: on_translation_finished_def show_translation_def)
  have b: "snd (on_translation_finished repr ocr_text (PStr t) win) = None"
    by (simp add: on_translation_finished_def)
  show ?thesis
    unfolding Let_def s
    using a b normalize_no_cr [of t] normalize_no_escape [of t] normalize_spaced [of t]
      normalize_text_lines [of t] split_nl_unify [of t] normalize_lines [of t]
      normalize_quoted [of t] normalize_plain [of t]
    by blast
qed

theorem finished_fills_panes_witness:
  "10 \<notin> set [34, 20320, 22909, 34 :: nat] \<and> 13 \<notin> set [34, 20320, 22909, 34 :: nat]
   \<and> 92 \<notin> set [34, 20320, 22909, 34 :: nat] \<and> quote_wrapped [34, 20320, 22909, 34]
   \<and> ocr_text_edit (fst (on_translation_finished (\<lambda>v. Inr []) (lit ''HI'')
        (PStr [34, 20320, 22909, 34]) empty_window)) = lit ''HI''
   \<and> trans_text_edit (fst (on_translation_finished (\<lambda>v. Inr []) (lit ''HI'')
        (PStr [34, 20320, 22909, 34]) empty_window)) = [20320, 22909]
   \<and> \<not> quote_wrapped (unify_newlines [97, 92, 110, 98, 13, 10, 99])
   \<and> filter (\<lambda>l. l \<noteq> []) (split_nl (trans_text_edit (fst (on_translation_finished (\<lambda>v. Inr [])
        (lit ''HI'') (PStr [97, 92, 110, 98, 13, 10, 99]) empty_window))))
       = [[97], [98], [99]]"
proof -
  have h: "10 \<notin> set [34, 20320, 22909, 34 :: nat] \<and> 13 \<notin> set [34, 20320, 22909, 34 :: nat]
   \<and> 92 \<notin> set [34, 20320, 22909, 34 :: nat] \<and> quote_wrapped [34, 20320, 22909, 34]"
    by (simp add: quote_wrapped_def)
  have u: "unify_newlines [97, 92, 110, 98, 13, 10, 99] = [97, 10, 98, 10, 99]"
    by (simp add: unify_newlines_def py_replace.simps)
  have q: "\<not> quote_wrapped (unify_newlines [97, 92, 110, 98, 13, 10, 99])"
    unfolding u by (simp add: quote_wrapped_def)
  have l: "text_lines [97, 92, 110, 98, 13, 10, 99] = [[97], [98], [99]]"
    by (simp add: text_lines.simps line_end_def)
  from finished_fills_panes [of "\<lambda>v. Inr []" "lit ''HI''" "[34, 20320, 22909, 34]" empty_window]
    h
  have 1: "ocr_text_edit (fst (on_translation_finished (\<lambda>v. Inr []) (lit ''HI'')
        (PStr [34, 20320, 22909, 34]) empty_window)) = lit ''HI''
   \<and> trans_text_edit (fst (on_translation_finished (\<lambda>v. Inr []) (lit ''HI'')
        (PStr [34, 20320, 22909, 34]) empty_window)) = [20320, 22909]"
    unfolding Let_def by simp
  from finished_fills_panes [of "\<lambda>v. Inr []" "lit ''HI''" "[97, 92, 110, 98, 13, 10, 99]" empty_window]
    q
  have 2: "filter (\<lambda>l. l \<noteq> []) (split_nl (trans_text_edit (fst (on_translation_finished (\<lambda>v. Inr [])
        (lit ''HI'') (PStr [97, 92, 110, 98, 13, 10, 99]) empty_window))))
       = filter (\<lambda>l. l \<noteq> []) (text_lines [97, 92, 110, 98, 13, 10, 99])"
    unfolding Let_def by blast
  show ?thesis using h q 1 2 unfolding l by simp
qed

text \<open>
  The claim as it was stated fails for a translation of two lines: the pane gets an
  empty line between them.
\<close>

theorem finished_adds_blank_line:
  "trans_text_edit (fst (on_translation_finished (\<lambda>v. Inr []) (lit ''HI'') (PStr [97, 10, 98])
       empty_window))
     = [97, 10, 10, 98]
   \<and> trans_text_edit (fst (on_translation_finished (\<lambda>v. Inr []) (lit ''HI'') (PStr [97, 10, 98])
       empty_window))
     \<noteq> [97, 10, 98]"
  by (simp add: on_translation_finished_def show_translation_def normalize_translation_def
      unify_newlines_def py_replace.simps unquote_def quote_wrapped_def is_quote_only_def
      quote_chars_def strip_def is_space_def)

section \<open>Properties of the canvas\<close>










lemma load_image_shows: "shows_pixmap (load_image loaded fitted c)"
  by (simp add: shows_pixmap_def load_image_def)







end
